theory Spec2Isabelle
  imports Main
begin

section \<open>JavaScript string primitives used by the executor and the parser\<close>

text \<open>
  A JavaScript string is modelled as a HOL \<open>string\<close>; every \<open>char\<close> stands for one
  code unit below 256. The functions below are the fragments of \<open>String.prototype\<close> and
  of the regular expressions that \<open>executor.ts\<close> and \<open>parser.ts\<close> use.
\<close>

definition startsWith :: "string \<Rightarrow> string \<Rightarrow> bool" where
  "startsWith p s = (take (length p) s = p)"

text \<open>
  \<open>GetSubstitution\<close> of ECMA-262 for a match without capture groups: in the replacement
  text, \<open>$$\<close> stands for a dollar sign, \<open>$&\<close> for the matched text, \<open>$`\<close> for the
  text before the match and \<open>$'\<close> for the text after it. Every other character, also a
  dollar sign followed by a digit or by \<open><\<close>, is copied.
\<close>

fun getSubstitution :: "string \<Rightarrow> string \<Rightarrow> string \<Rightarrow> string \<Rightarrow> string" where
  "getSubstitution matched pre post (c # d # r) =
     (if c = CHR ''$'' \<and> d = CHR ''$'' then CHR ''$'' # getSubstitution matched pre post r
      else if c = CHR ''$'' \<and> d = CHR ''&'' then matched @ getSubstitution matched pre post r
      else if c = CHR ''$'' \<and> d = CHR 0x60 then pre @ getSubstitution matched pre post r
      else if c = CHR ''$'' \<and> d = CHR 0x27 then post @ getSubstitution matched pre post r
      else c # getSubstitution matched pre post (d # r))"
| "getSubstitution matched pre post r = r"

text \<open>
  \<open>s.replace(new RegExp(pattern, 'g'), replacement)\<close> where the pattern denotes the literal,
  non-empty text \<open>p # ps\<close>: the matches are found from left to right without overlap, and
  \<open>pre\<close> is the part of the subject already passed. The executor builds its patterns as
  \<open>\\?\<close> or \<open>\\$\<close> followed by a name, which is this literal whenever the name
  consists of word characters.
\<close>

function replaceGlobal :: "char \<Rightarrow> string \<Rightarrow> string \<Rightarrow> string \<Rightarrow> string \<Rightarrow> string" where
  "replaceGlobal p ps replacement pre [] = []"
| "replaceGlobal p ps replacement pre (c # cs) =
     (if startsWith (p # ps) (c # cs)
      then getSubstitution (p # ps) pre (drop (length ps) cs) replacement
             @ replaceGlobal p ps replacement (pre @ p # ps) (drop (length ps) cs)
      else c # replaceGlobal p ps replacement (pre @ [c]) cs)"
  by pat_completeness auto
termination
  by (relation "measure (\<lambda>(p, ps, r, b, s). length s)") auto

text \<open>
  \<open>s.replace(pattern, replacement)\<close> with a string pattern: only the first occurrence is
  replaced.
\<close>

fun replaceFirst :: "string \<Rightarrow> string \<Rightarrow> string \<Rightarrow> string \<Rightarrow> string" where
  "replaceFirst pat replacement pre [] =
     (if pat = [] then getSubstitution [] pre [] replacement else [])"
| "replaceFirst pat replacement pre (c # cs) =
     (if startsWith pat (c # cs)
      then getSubstitution pat pre (drop (length pat) (c # cs)) replacement
             @ drop (length pat) (c # cs)
      else c # replaceFirst pat replacement (pre @ [c]) cs)"

text \<open>The decimal numeral of a number, as a template literal prints it.\<close>

definition digitChar :: "nat \<Rightarrow> char" where
  "digitChar d = ''0123456789'' ! d"

fun showNat :: "nat \<Rightarrow> string" where
  "showNat n = (if n < 10 then [digitChar n] else showNat (n div 10) @ [digitChar (n mod 10)])"

declare showNat.simps [simp del]

text \<open>
  The regular expression \<open>/\$env\("([^"]+)"\)/\<close> tried at the start of a string: the
  matched text, the name in the group, and the rest of the string.
\<close>

definition matchEnvAt :: "string \<Rightarrow> (string \<times> string \<times> string) option" where
  \<open>matchEnvAt s =
     (if startsWith ''$env("'' s
      then (let r = drop 6 s; n = takeWhile (\<lambda>c. c \<noteq> CHR 0x22) r; r' = dropWhile (\<lambda>c. c \<noteq> CHR 0x22) r
            in if n \<noteq> [] \<and> startsWith ''")'' r'
               then Some (''$env("'' @ n @ ''")'', n, drop 2 r')
               else None)
      else None)\<close>

text \<open>The leftmost match of that expression in a string.\<close>

fun searchEnv :: "string \<Rightarrow> (string \<times> string \<times> string) option" where
  "searchEnv [] = None"
| "searchEnv (c # cs) =
     (case matchEnvAt (c # cs) of Some m \<Rightarrow> Some m | None \<Rightarrow> searchEnv cs)"

text \<open>
  \<open>s.match(/\$env\("([^"]+)"\)/g)\<close>: the texts of all matches, from left to right. The
  search resumes where the last match ended: \<open>skip\<close> counts the characters of that match
  still to be passed.
\<close>

fun envVarMatchesFrom :: "nat \<Rightarrow> string \<Rightarrow> string list" where
  "envVarMatchesFrom skip [] = []"
| "envVarMatchesFrom (Suc skip) (c # cs) = envVarMatchesFrom skip cs"
| "envVarMatchesFrom 0 (c # cs) =
     (case matchEnvAt (c # cs) of
        Some (m, n, r) \<Rightarrow> m # envVarMatchesFrom (length m - 1) cs
      | None \<Rightarrow> envVarMatchesFrom 0 cs)"

definition envVarMatches :: "string \<Rightarrow> string list" where
  "envVarMatches s = envVarMatchesFrom 0 s"

text \<open>The name in the group of the first match inside a matched text.\<close>

definition envVarName :: "string \<Rightarrow> string option" where
  "envVarName m = (case searchEnv m of Some (m', n, r) \<Rightarrow> Some n | None \<Rightarrow> None)"

section \<open>The script model (utils.ts)\<close>

record Variable =
  var_name :: string
  var_value :: string

record Command =
  cmd_type :: string
  cmd_args :: "string list"

record Task =
  task_name :: string
  task_commands :: "Command list"

record SSALScript =
  variables :: "Variable list"
  tasks :: "Task list"

record ExecutionResult =
  success :: bool
  message :: "string option"

section \<open>The executor (executor.ts)\<close>

text \<open>
  The repository holds the executor twice. The model follows the later text, the one
  with positional and named arguments, runtime variables and the \<open>var\<close> command, which
  the \<open>var\<close> commands of the parser need. The earlier text is the same code without
  them: its \<open>replaceVariables\<close> has the pass over the declared variables and the pass
  over the environment only.
\<close>

text \<open>
  What the executor writes: \<open>console.log\<close>, \<open>console.warn\<close>, and the child's output
  copied to \<open>process.stdout\<close> and \<open>process.stderr\<close>.
\<close>

datatype emitted = ConsoleLog string | ConsoleWarn string | StdoutWrite string | StderrWrite string

text \<open>
  How the child process of a \<open>run\<close> command ends: it exits with a status, it is ended
  by a signal, or the shell cannot be spawned at all (with the message of that error);
  and what it has written by then.
\<close>

datatype ending = Exited nat | Killed string | NotSpawned string

record child =
  child_ending :: ending
  child_stdout :: string
  child_stderr :: string

text \<open>
  The arguments of the callback of \<open>child_process.exec\<close>: the message of the error
  (\<open>None\<close> for \<open>null\<close>) and the two captured streams.
\<close>

record exec_callback =
  cb_error :: "string option"
  cb_stdout :: string
  cb_stderr :: string

text \<open>
  \<open>child_process.exec\<close> of Node.js, which is not code of the repository, as its
  documentation states it: the error is \<open>null\<close> when the child has exited with the
  status \<open>0\<close>; for any other status, and for a child ended by a signal, it is an error
  with the message \<open>Command failed:\<close>, the command, a line feed and the child's error
  output; when the shell cannot be spawned it is the error of the spawn.
\<close>

definition nodeExec :: "string \<Rightarrow> child \<Rightarrow> exec_callback" where
  "nodeExec command ch =
     \<lparr>cb_error =
        (case child_ending ch of
           Exited status \<Rightarrow>
             if status = 0 then None
             else Some (''Command failed: '' @ command @ [CHR 0x0A] @ child_stderr ch)
         | Killed signal \<Rightarrow> Some (''Command failed: '' @ command @ [CHR 0x0A] @ child_stderr ch)
         | NotSpawned msg \<Rightarrow> Some msg),
      cb_stdout = child_stdout ch, cb_stderr = child_stderr ch\<rparr>"

text \<open>
  The host the executor runs on, over a state \<open>'w\<close> of the outside world (the file
  system and whatever a child process changes): \<open>process.env\<close>, the child that the
  shell runs for a command in a working directory, \<open>fs.existsSync\<close>, \<open>fs.unlinkSync\<close> (\<open>Inl\<close> carries
  the message of the error it throws) and \<open>path.resolve\<close>.
\<close>

record 'w host =
  process_env :: "string \<Rightarrow> string option"
  shell_child :: "string \<Rightarrow> string \<Rightarrow> 'w \<Rightarrow> child \<times> 'w"
  fs_existsSync :: "'w \<Rightarrow> string \<Rightarrow> bool"
  fs_unlinkSync :: "'w \<Rightarrow> string \<Rightarrow> string + 'w"
  path_resolve :: "string \<Rightarrow> string \<Rightarrow> string"

text \<open>
  The executor object with its five private fields, together with what it has written
  and the state of the world. \<open>taskArgs\<close> holds the own properties of the object of that
  name; \<open>namedArgs\<close> and \<open>globalVariables\<close> are the entries of their objects in the order
  \<open>Object.entries\<close> lists them.
\<close>

record 'w Executor =
  script :: SSALScript
  workingDir :: string
  taskArgs :: "string \<Rightarrow> string list option"
  namedArgs :: "(string \<times> string) list"
  globalVariables :: "(string \<times> string) list"
  written :: "emitted list"
  world :: 'w

definition newExecutor :: "SSALScript \<Rightarrow> string \<Rightarrow> 'w \<Rightarrow> 'w Executor" where
  "newExecutor scr dir w =
     \<lparr>script = scr, workingDir = dir, taskArgs = Map.empty, namedArgs = [],
      globalVariables = [], written = [], world = w\<rparr>"

text \<open>
  \<open>setTaskArgs\<close> stores the list as an own property, which is what the assignment does
  for every task name but \<open>__proto__\<close>.
\<close>

definition setTaskArgs :: "string \<Rightarrow> string list \<Rightarrow> 'w Executor \<Rightarrow> 'w Executor" where
  "setTaskArgs taskName targs ex = ex\<lparr>taskArgs := (taskArgs ex)(taskName \<mapsto> targs)\<rparr>"

definition setNamedArgs :: "(string \<times> string) list \<Rightarrow> 'w Executor \<Rightarrow> 'w Executor" where
  "setNamedArgs nargs ex = ex\<lparr>namedArgs := nargs\<rparr>"

definition emit :: "emitted \<Rightarrow> 'w Executor \<Rightarrow> 'w Executor" where
  "emit out ex = ex\<lparr>written := written ex @ [out]\<rparr>"

subsection \<open>Objects used as maps\<close>

text \<open>
  \<open>Object.entries\<close> lists the keys that are array indices first, in ascending numeric
  order, and then the other keys in the order of their creation; assigning to an existing
  key keeps its place.
\<close>

definition isDigit :: "char \<Rightarrow> bool" where
  "isDigit c = (c \<in> set ''0123456789'')"

definition readNat :: "string \<Rightarrow> int" where
  "readNat k = foldl (\<lambda>n c. 10 * n + (of_char c - 48)) 0 k"

definition isArrayIndex :: "string \<Rightarrow> bool" where
  "isArrayIndex k =
     (k \<noteq> [] \<and> list_all isDigit k \<and> (k = ''0'' \<or> hd k \<noteq> CHR ''0'') \<and> readNat k < 4294967295)"

definition objectSet :: "string \<Rightarrow> string \<Rightarrow> (string \<times> string) list \<Rightarrow> (string \<times> string) list" where
  "objectSet k v m =
     (if k \<in> set (map fst m) then map (\<lambda>(k', v'). if k' = k then (k', v) else (k', v')) m
      else if isArrayIndex k
        then takeWhile (\<lambda>(k', v'). isArrayIndex k' \<and> readNat k' < readNat k) m @ [(k, v)]
               @ dropWhile (\<lambda>(k', v'). isArrayIndex k' \<and> readNat k' < readNat k) m
      else m @ [(k, v)])"

text \<open>
  The property names an object literal inherits from \<open>Object.prototype\<close>: reading one of
  them from \<open>taskArgs\<close> yields a function or an object, never \<open>undefined\<close>.
\<close>

definition objectPrototypeKeys :: "string list" where
  "objectPrototypeKeys =
     [''constructor'', ''__defineGetter__'', ''__defineSetter__'', ''hasOwnProperty'',
      ''__lookupGetter__'', ''__lookupSetter__'', ''isPrototypeOf'', ''propertyIsEnumerable'',
      ''toString'', ''valueOf'', ''__proto__'', ''toLocaleString'']"

subsection \<open>Variable resolution\<close>

text \<open>
  An error thrown and caught inside the executor is the text of its message: \<open>Inl\<close> of a
  sum. The two texts below are those of the \<open>TypeError\<close>s of V8.
\<close>

definition cannotRead :: "string \<Rightarrow> string" where
  "cannotRead prop = ''Cannot read properties of undefined (reading '' @ [CHR 0x27] @ prop @ [CHR 0x27] @ '')''"

text \<open>
  \<open>this.taskArgs[taskName] || []\<close>, followed by \<open>taskArgs.forEach\<close>: the registered
  list, the empty list for an unknown task, and a \<open>TypeError\<close> when the name is one of the
  inherited ones and no list is registered under it.
\<close>

definition lookupTaskArgs :: "'w Executor \<Rightarrow> string \<Rightarrow> string + string list" where
  "lookupTaskArgs ex taskName =
     (case taskArgs ex taskName of
        Some targs \<Rightarrow> Inr targs
      | None \<Rightarrow> if taskName \<in> set objectPrototypeKeys
                then Inl ''taskArgs.forEach is not a function'' else Inr [])"

definition replaceTaskArgs :: "string list \<Rightarrow> string \<Rightarrow> string" where
  "replaceTaskArgs targs s =
     foldl (\<lambda>result index.
              replaceGlobal (CHR ''?'') (showNat (index + 1)) (targs ! index) [] result)
       s [0..<length targs]"

definition replaceNamedArgs :: "(string \<times> string) list \<Rightarrow> string \<Rightarrow> string" where
  "replaceNamedArgs nas s =
     foldl (\<lambda>result (key, v). replaceGlobal (CHR ''?'') key v [] result) s nas"

definition replaceScriptVariables :: "Variable list \<Rightarrow> string \<Rightarrow> string" where
  "replaceScriptVariables vs s =
     foldl (\<lambda>result v. replaceGlobal (CHR ''$'') (var_name v) (var_value v) [] result) s vs"

definition replaceGlobalVariables :: "(string \<times> string) list \<Rightarrow> string \<Rightarrow> string" where
  "replaceGlobalVariables gs s =
     foldl (\<lambda>result (key, v). replaceGlobal (CHR ''$'') key v [] result) s gs"

definition replaceEnvMatch :: "(string \<Rightarrow> string option) \<Rightarrow> string \<Rightarrow> string \<Rightarrow> string" where
  "replaceEnvMatch env result m =
     (case envVarName m of
        None \<Rightarrow> result
      | Some varName \<Rightarrow>
          (if varName \<noteq> [] then (case env varName of Some v \<Rightarrow> replaceFirst m v [] result | None \<Rightarrow> result)
           else result))"

definition replaceEnvVariables :: "(string \<Rightarrow> string option) \<Rightarrow> string \<Rightarrow> string" where
  "replaceEnvVariables env s = foldl (replaceEnvMatch env) s (envVarMatches s)"

text \<open>The first four passes of \<open>replaceVariables\<close>, in the order of the source.\<close>

definition substituteNames :: "'w Executor \<Rightarrow> string list \<Rightarrow> string \<Rightarrow> string" where
  "substituteNames ex targs s =
     replaceGlobalVariables (globalVariables ex)
       (replaceScriptVariables (variables (script ex))
         (replaceNamedArgs (namedArgs ex) (replaceTaskArgs targs s)))"

text \<open>
  \<open>replaceVariables(taskName, input)\<close>; the input is \<open>None\<close> when the argument read
  from \<open>command.args\<close> is \<open>undefined\<close>, and then the first method call on it throws.
\<close>

definition replaceVariables :: "'w host \<Rightarrow> 'w Executor \<Rightarrow> string \<Rightarrow> string option \<Rightarrow> string + string" where
  "replaceVariables h ex taskName input =
     (case lookupTaskArgs ex taskName of
        Inl e \<Rightarrow> Inl e
      | Inr targs \<Rightarrow>
          (case input of
             None \<Rightarrow>
               Inl (if targs \<noteq> [] \<or> namedArgs ex \<noteq> [] \<or> variables (script ex) \<noteq> []
                       \<or> globalVariables ex \<noteq> []
                    then cannotRead ''replace'' else cannotRead ''match'')
           | Some s \<Rightarrow> Inr (replaceEnvVariables (process_env h) (substituteNames ex targs s))))"

subsection \<open>The commands\<close>

definition setVariable :: "string \<Rightarrow> string \<Rightarrow> 'w Executor \<Rightarrow> ExecutionResult \<times> 'w Executor" where
  "setVariable name v ex =
     (\<lparr>success = True, message = None\<rparr>,
      if name = ''__proto__'' then ex
      else ex\<lparr>globalVariables := objectSet name v (globalVariables ex)\<rparr>)"

definition runCommand :: "'w host \<Rightarrow> string \<Rightarrow> 'w Executor \<Rightarrow> ExecutionResult \<times> 'w Executor" where
  "runCommand h command ex =
     (let ex1 = emit (ConsoleLog (''Running: '' @ command)) ex;
          (ch, w) = shell_child h command (workingDir ex) (world ex);
          cb = nodeExec command ch;
          ex2 = ex1\<lparr>world := w\<rparr>;
          ex3 = (if cb_stdout cb \<noteq> [] then emit (StdoutWrite (cb_stdout cb)) ex2 else ex2);
          ex4 = (if cb_stderr cb \<noteq> [] then emit (StderrWrite (cb_stderr cb)) ex3 else ex3)
      in (case cb_error cb of
            Some msg \<Rightarrow> (\<lparr>success = False, message = Some (''Command failed: '' @ msg)\<rparr>, ex4)
          | None \<Rightarrow> (\<lparr>success = True, message = Some ''Command executed successfully''\<rparr>, ex4)))"

definition deleteFile :: "'w host \<Rightarrow> string \<Rightarrow> 'w Executor \<Rightarrow> ExecutionResult \<times> 'w Executor" where
  "deleteFile h filePath ex =
     (let fullPath = path_resolve h (workingDir ex) filePath
      in if fs_existsSync h (world ex) fullPath
         then (case fs_unlinkSync h (world ex) fullPath of
                 Inr w \<Rightarrow> (\<lparr>success = True, message = None\<rparr>,
                           emit (ConsoleLog (''Deleted: '' @ filePath)) (ex\<lparr>world := w\<rparr>))
               | Inl err \<Rightarrow> (\<lparr>success = False,
                              message = Some (''Failed to delete '' @ filePath @ '': '' @ err)\<rparr>, ex))
         else (\<lparr>success = True, message = None\<rparr>,
               emit (ConsoleWarn (''Warning: File '' @ filePath @ '' does not exist'')) ex))"

definition echo :: "string \<Rightarrow> 'w Executor \<Rightarrow> ExecutionResult \<times> 'w Executor" where
  "echo msg ex = (\<lparr>success = True, message = None\<rparr>, emit (ConsoleLog msg) ex)"

definition completed :: "string \<Rightarrow> ExecutionResult" where
  \<open>completed taskName =
     \<lparr>success = True, message = Some (''Task "'' @ taskName @ ''" completed successfully'')\<rparr>\<close>

text \<open>
  A task can invoke tasks without bound. The recursive call \<open>this.executeTask\<close> is the
  parameter \<open>invoke\<close>; a result \<open>None\<close> says that the nesting of invocations went beyond
  the depth the model was given, and it ends every enclosing task.
\<close>

definition runTask ::
  "('w Executor \<Rightarrow> string \<Rightarrow> ExecutionResult option \<times> 'w Executor) \<Rightarrow> string \<Rightarrow> 'w Executor
     \<Rightarrow> ExecutionResult option \<times> 'w Executor" where
  "runTask invoke taskName ex =
     (case invoke (emit (ConsoleLog (''Running task: '' @ taskName)) ex) taskName of
        (None, ex') \<Rightarrow> (None, ex')
      | (Some result, ex') \<Rightarrow>
          if \<not> success result then (Some result, ex') else (Some (completed taskName), ex'))"

definition argAt :: "string list \<Rightarrow> nat \<Rightarrow> string option" where
  "argAt xs i = (if i < length xs then Some (xs ! i) else None)"

definition caught :: "Command \<Rightarrow> string \<Rightarrow> ExecutionResult" where
  \<open>caught command msg =
     \<lparr>success = False,
      message = Some (''Error executing command "'' @ cmd_type command @ ''": '' @ msg)\<rparr>\<close>

definition executeCommand ::
  "('w Executor \<Rightarrow> string \<Rightarrow> ExecutionResult option \<times> 'w Executor) \<Rightarrow> 'w host \<Rightarrow> string \<Rightarrow> Command
     \<Rightarrow> 'w Executor \<Rightarrow> ExecutionResult option \<times> 'w Executor" where
  "executeCommand invoke h taskName command ex =
     (if cmd_type command = ''run'' then
        (case replaceVariables h ex taskName (argAt (cmd_args command) 0) of
           Inl e \<Rightarrow> (Some (caught command e), ex)
         | Inr s \<Rightarrow> (case runCommand h s ex of (r, ex') \<Rightarrow> (Some r, ex')))
      else if cmd_type command = ''del'' then
        (case replaceVariables h ex taskName (argAt (cmd_args command) 0) of
           Inl e \<Rightarrow> (Some (caught command e), ex)
         | Inr s \<Rightarrow> (case deleteFile h s ex of (r, ex') \<Rightarrow> (Some r, ex')))
      else if cmd_type command = ''ech'' then
        (case replaceVariables h ex taskName (argAt (cmd_args command) 0) of
           Inl e \<Rightarrow> (Some (caught command e), ex)
         | Inr s \<Rightarrow> (case echo s ex of (r, ex') \<Rightarrow> (Some r, ex')))
      else if cmd_type command = ''tsk'' then
        (case replaceVariables h ex taskName (argAt (cmd_args command) 0) of
           Inl e \<Rightarrow> (Some (caught command e), ex)
         | Inr s \<Rightarrow> runTask invoke s ex)
      else if cmd_type command = ''var'' then
        (case replaceVariables h ex taskName (argAt (cmd_args command) 1) of
           Inl e \<Rightarrow> (Some (caught command e), ex)
         | Inr varValue \<Rightarrow>
             (case setVariable (case argAt (cmd_args command) 0 of Some n \<Rightarrow> n | None \<Rightarrow> ''undefined'')
                     varValue ex of
                (r, ex') \<Rightarrow> (Some r, ex')))
      else (Some \<lparr>success = False, message = Some (''Unknown command: '' @ cmd_type command)\<rparr>, ex))"

subsection \<open>Tasks\<close>

text \<open>The loop over \<open>task.commands\<close>: it returns the first result that is not a success.\<close>

fun forCommands ::
  "('w Executor \<Rightarrow> string \<Rightarrow> ExecutionResult option \<times> 'w Executor) \<Rightarrow> 'w host \<Rightarrow> string \<Rightarrow> Command list
     \<Rightarrow> 'w Executor \<Rightarrow> ExecutionResult option \<times> 'w Executor" where
  "forCommands invoke h taskName [] ex = (Some (completed taskName), ex)"
| "forCommands invoke h taskName (command # rest) ex =
     (case executeCommand invoke h taskName command ex of
        (None, ex') \<Rightarrow> (None, ex')
      | (Some result, ex') \<Rightarrow>
          if \<not> success result then (Some result, ex') else forCommands invoke h taskName rest ex')"

definition notFound :: "string \<Rightarrow> ExecutionResult" where
  \<open>notFound taskName =
     \<lparr>success = False, message = Some (''Task "'' @ taskName @ ''" not found'')\<rparr>\<close>

definition executeTaskWith ::
  "('w Executor \<Rightarrow> string \<Rightarrow> ExecutionResult option \<times> 'w Executor) \<Rightarrow> 'w host \<Rightarrow> 'w Executor \<Rightarrow> string
     \<Rightarrow> ExecutionResult option \<times> 'w Executor" where
  "executeTaskWith invoke h ex taskName =
     (case find (\<lambda>t. task_name t = taskName) (tasks (script ex)) of
        None \<Rightarrow> (Some (notFound taskName), ex)
      | Some task \<Rightarrow> forCommands invoke h taskName (task_commands task) ex)"

text \<open>
  \<open>this.executeTask\<close> as a command sees it when \<open>depth\<close> further levels of nested
  invocation are allowed: with none left, the invocation gives \<open>None\<close>.
\<close>

fun nested ::
  "nat \<Rightarrow> 'w host \<Rightarrow> 'w Executor \<Rightarrow> string \<Rightarrow> ExecutionResult option \<times> 'w Executor" where
  "nested 0 h = (\<lambda>ex taskName. (None, ex))"
| "nested (Suc depth) h = executeTaskWith (nested depth h) h"

text \<open>\<open>executeTask(taskName)\<close>, with a bound on the depth of the \<open>tsk\<close> invocations inside it.\<close>

definition executeTask ::
  "nat \<Rightarrow> 'w host \<Rightarrow> 'w Executor \<Rightarrow> string \<Rightarrow> ExecutionResult option \<times> 'w Executor" where
  "executeTask depth h ex taskName = executeTaskWith (nested depth h) h ex taskName"

text \<open>The calls a client makes on one executor, and a sequence of them.\<close>

datatype call = SetTaskArgs string "string list" | SetNamedArgs "(string \<times> string) list" | ExecuteTask string

fun perform :: "nat \<Rightarrow> 'w host \<Rightarrow> 'w Executor \<Rightarrow> call \<Rightarrow> 'w Executor" where
  "perform depth h ex (SetTaskArgs taskName targs) = setTaskArgs taskName targs ex"
| "perform depth h ex (SetNamedArgs nargs) = setNamedArgs nargs ex"
| "perform depth h ex (ExecuteTask taskName) = snd (executeTask depth h ex taskName)"

definition performAll :: "nat \<Rightarrow> 'w host \<Rightarrow> 'w Executor \<Rightarrow> call list \<Rightarrow> 'w Executor" where
  "performAll depth h ex calls = foldl (perform depth h) ex calls"

text \<open>
  The state after the commands of a list have run one after the other, when each of them
  has returned a success.
\<close>

fun allSucceed ::
  "('w Executor \<Rightarrow> string \<Rightarrow> ExecutionResult option \<times> 'w Executor) \<Rightarrow> 'w host \<Rightarrow> string \<Rightarrow> Command list
     \<Rightarrow> 'w Executor \<Rightarrow> 'w Executor option" where
  "allSucceed invoke h taskName [] ex = Some ex"
| "allSucceed invoke h taskName (command # rest) ex =
     (case executeCommand invoke h taskName command ex of
        (Some result, ex') \<Rightarrow> if success result then allSucceed invoke h taskName rest ex' else None
      | (None, ex') \<Rightarrow> None)"

definition hasVarCommand :: "SSALScript \<Rightarrow> bool" where
  "hasVarCommand scr = (\<exists>t \<in> set (tasks scr). \<exists>c \<in> set (task_commands t). cmd_type c = ''var'')"

section \<open>The parser (parser.ts)\<close>

text \<open>
  The character classes of the regular expressions: \<open>\s\<close> (which is also what
  \<open>trim\<close> removes), the line terminators that \<open>.\<close> does not match, and \<open>\w\<close>,
  which is \<open>isWordChar\<close> below.
\<close>

definition isSpace :: "char \<Rightarrow> bool" where
  "isSpace c = (c \<in> set [CHR 0x09, CHR 0x0A, CHR 0x0B, CHR 0x0C, CHR 0x0D, CHR 0x20, CHR 0xA0])"

definition isLineTerminator :: "char \<Rightarrow> bool" where
  "isLineTerminator c = (c = CHR 0x0A \<or> c = CHR 0x0D)"

definition isWordChar :: "char \<Rightarrow> bool" where
  "isWordChar c = (c \<in> set ''abcdefghijklmnopqrstuvwxyzABCDEFGHIJKLMNOPQRSTUVWXYZ0123456789_'')"

definition trim :: "string \<Rightarrow> string" where
  "trim s = rev (dropWhile isSpace (rev (dropWhile isSpace s)))"

text \<open>\<open>content.split('\n')\<close>.\<close>

fun splitLines :: "string \<Rightarrow> string list" where
  "splitLines [] = [[]]"
| "splitLines (c # cs) =
     (if c = CHR 0x0A then [] # splitLines cs
      else (case splitLines cs of l # ls \<Rightarrow> (c # l) # ls | [] \<Rightarrow> [[c]]))"

text \<open>
  \<open>s.match(re)\<close> for an expression without the \<open>g\<close> flag: the match at the leftmost
  position where the expression matches. \<open>at\<close> tries the expression at the start of a
  string.
\<close>

fun searchRe :: "(string \<Rightarrow> 'a option) \<Rightarrow> string \<Rightarrow> 'a option" where
  "searchRe at [] = at []"
| "searchRe at (c # cs) = (case at (c # cs) of Some r \<Rightarrow> Some r | None \<Rightarrow> searchRe at cs)"

text \<open>
  In each expression below a repetition is followed by something its class excludes, so
  that a repetition takes the longest run there is and the match at a position is
  unique. The one exception is the \<open>\s+\<close> before \<open>(.+)\<close> in the last expression, which
  gives one character back when nothing follows the run.

  \<open>/var\s+(\w+)\s*=\s*"([^"]*)"$/\<close>: the name and the value.
\<close>

definition matchVarAt :: "string \<Rightarrow> (string \<times> string) option" where
  "matchVarAt s =
     (if startsWith ''var'' s \<and> takeWhile isSpace (drop 3 s) \<noteq> [] then
        (let r1 = dropWhile isSpace (drop 3 s);
             n = takeWhile isWordChar r1;
             r2 = dropWhile isSpace (dropWhile isWordChar r1)
         in if n \<noteq> [] \<and> startsWith ''='' r2 then
              (let r3 = dropWhile isSpace (drop 1 r2);
                   v = takeWhile (\<lambda>c. c \<noteq> CHR 0x22) (drop 1 r3)
               in if startsWith [CHR 0x22] r3 \<and> dropWhile (\<lambda>c. c \<noteq> CHR 0x22) (drop 1 r3) = [CHR 0x22]
                  then Some (n, v) else None)
            else None)
      else None)"

text \<open>\<open>/task\s+(\w+):$/\<close>: the name.\<close>

definition matchTaskAt :: "string \<Rightarrow> string option" where
  "matchTaskAt s =
     (if startsWith ''task'' s \<and> takeWhile isSpace (drop 4 s) \<noteq> [] then
        (let r1 = dropWhile isSpace (drop 4 s);
             n = takeWhile isWordChar r1
         in if n \<noteq> [] \<and> dropWhile isWordChar r1 = '':'' then Some n else None)
      else None)"

text \<open>\<open>/^\s+\w+/\<close>.\<close>

definition indentedWord :: "string \<Rightarrow> bool" where
  "indentedWord s =
     (takeWhile isSpace s \<noteq> [] \<and> takeWhile isWordChar (dropWhile isSpace s) \<noteq> [])"

text \<open>
  The common start \<open>\s+(\w+)\s+\<close> of the four command expressions: the word and the
  two parts that follow it, the run of white space and the rest.
\<close>

definition matchWordAt :: "string \<Rightarrow> (string \<times> string \<times> string) option" where
  "matchWordAt s =
     (let r1 = dropWhile isSpace s;
          w = takeWhile isWordChar r1;
          r2 = dropWhile isWordChar r1
      in if takeWhile isSpace s \<noteq> [] \<and> w \<noteq> [] \<and> takeWhile isSpace r2 \<noteq> []
         then Some (w, takeWhile isSpace r2, dropWhile isSpace r2) else None)"

text \<open>\<open>"([^"]*)"\<close> at the start of a string: the quoted text and what follows it.\<close>

definition matchQuoted :: "string \<Rightarrow> (string \<times> string) option" where
  "matchQuoted s =
     (if startsWith [CHR 0x22] s
           \<and> startsWith [CHR 0x22] (dropWhile (\<lambda>c. c \<noteq> CHR 0x22) (drop 1 s))
      then Some (takeWhile (\<lambda>c. c \<noteq> CHR 0x22) (drop 1 s),
                 drop 1 (dropWhile (\<lambda>c. c \<noteq> CHR 0x22) (drop 1 s)))
      else None)"

text \<open>\<open>/\s+(\w+)\s+"([^"]*)"\s+"([^"]*)"$/\<close>.\<close>

definition matchTwoQuotedAt :: "string \<Rightarrow> (string \<times> string \<times> string) option" where
  "matchTwoQuotedAt s =
     (case matchWordAt s of
        None \<Rightarrow> None
      | Some (w, sp, r) \<Rightarrow>
          (case matchQuoted r of
             None \<Rightarrow> None
           | Some (a, r') \<Rightarrow>
               (if takeWhile isSpace r' \<noteq> [] then
                  (case matchQuoted (dropWhile isSpace r') of
                     Some (b, r'') \<Rightarrow> if r'' = [] then Some (w, a, b) else None
                   | None \<Rightarrow> None)
                else None)))"

text \<open>\<open>/\s+(\w+)\s+"([^"]*)"$/\<close>.\<close>

definition matchOneQuotedAt :: "string \<Rightarrow> (string \<times> string) option" where
  "matchOneQuotedAt s =
     (case matchWordAt s of
        None \<Rightarrow> None
      | Some (w, sp, r) \<Rightarrow>
          (case matchQuoted r of
             Some (a, r') \<Rightarrow> if r' = [] then Some (w, a) else None
           | None \<Rightarrow> None))"

text \<open>\<open>/\s+(\w+)\s+"([^"]*)"\s*(.*)$/\<close>.\<close>

definition matchQuotedTailAt :: "string \<Rightarrow> (string \<times> string \<times> string) option" where
  "matchQuotedTailAt s =
     (case matchWordAt s of
        None \<Rightarrow> None
      | Some (w, sp, r) \<Rightarrow>
          (case matchQuoted r of
             Some (a, r') \<Rightarrow>
               if list_ex isLineTerminator (dropWhile isSpace r') then None
               else Some (w, a, dropWhile isSpace r')
           | None \<Rightarrow> None))"

text \<open>\<open>/\s+(\w+)\s+(.+)$/\<close>.\<close>

definition matchBareAt :: "string \<Rightarrow> (string \<times> string) option" where
  "matchBareAt s =
     (case matchWordAt s of
        None \<Rightarrow> None
      | Some (w, sp, r) \<Rightarrow>
          (if r \<noteq> [] then (if list_ex isLineTerminator r then None else Some (w, r))
           else if 2 \<le> length sp \<and> \<not> isLineTerminator (last sp) then Some (w, [last sp])
           else None))"

text \<open>
  The state of the loop of \<open>parseSSALContent\<close>: the script built so far and
  \<open>currentTask\<close>, which the parser holds as a reference to a task that is also an element
  of \<open>script.tasks\<close> and which is its index here.
\<close>

record ParserState =
  ps_script :: SSALScript
  currentTask :: "nat option"

definition pushCommand :: "nat \<Rightarrow> Command \<Rightarrow> ParserState \<Rightarrow> ParserState" where
  "pushCommand i command st =
     st\<lparr>ps_script := (ps_script st)\<lparr>tasks := (tasks (ps_script st))
        [i := (tasks (ps_script st) ! i)
                \<lparr>task_commands := task_commands (tasks (ps_script st) ! i) @ [command]\<rparr>]\<rparr>\<rparr>"

definition pushVariable :: "Variable \<Rightarrow> ParserState \<Rightarrow> ParserState" where
  "pushVariable v st =
     st\<lparr>ps_script := (ps_script st)\<lparr>variables := variables (ps_script st) @ [v]\<rparr>\<rparr>"

definition openTask :: "string \<Rightarrow> ParserState \<Rightarrow> ParserState" where
  "openTask n st =
     st\<lparr>ps_script := (ps_script st)\<lparr>tasks := tasks (ps_script st) @ [\<lparr>task_name = n, task_commands = []\<rparr>]\<rparr>,
        currentTask := Some (length (tasks (ps_script st)))\<rparr>"

text \<open>The four attempts at a command line, in the order of the source.\<close>

definition parseCommand :: "string \<Rightarrow> Command option" where
  "parseCommand rawLine =
     (case searchRe matchTwoQuotedAt rawLine of
        Some (w, a, b) \<Rightarrow> Some \<lparr>cmd_type = w, cmd_args = [a, b]\<rparr>
      | None \<Rightarrow>
     (case searchRe matchOneQuotedAt rawLine of
        Some (w, a) \<Rightarrow> Some \<lparr>cmd_type = w, cmd_args = [a]\<rparr>
      | None \<Rightarrow>
     (case searchRe matchQuotedTailAt rawLine of
        Some (w, a, t) \<Rightarrow> Some \<lparr>cmd_type = w, cmd_args = [a @ (if t \<noteq> [] then '' '' @ trim t else [])]\<rparr>
      | None \<Rightarrow>
     (case searchRe matchBareAt rawLine of
        Some (w, t) \<Rightarrow> Some \<lparr>cmd_type = w, cmd_args = [t]\<rparr>
      | None \<Rightarrow> None))))"

text \<open>One turn of the loop.\<close>

definition parseLine :: "ParserState \<Rightarrow> string \<Rightarrow> ParserState" where
  "parseLine st rawLine =
     (let line = trim rawLine in
      if line = [] \<or> startsWith ''#'' line then st
      else if startsWith ''var '' line then
        (case searchRe matchVarAt line of
           Some (n, v) \<Rightarrow>
             (case currentTask st of
                Some i \<Rightarrow> pushCommand i \<lparr>cmd_type = ''var'', cmd_args = [n, v]\<rparr> st
              | None \<Rightarrow> pushVariable \<lparr>var_name = n, var_value = v\<rparr> st)
         | None \<Rightarrow> st)
      else if startsWith ''task '' line then
        (case searchRe matchTaskAt line of Some n \<Rightarrow> openTask n st | None \<Rightarrow> st)
      else
        (case currentTask st of
           Some i \<Rightarrow>
             (if indentedWord rawLine then
                (case parseCommand rawLine of Some command \<Rightarrow> pushCommand i command st | None \<Rightarrow> st)
              else st)
         | None \<Rightarrow> st))"

definition initialParserState :: ParserState where
  "initialParserState = \<lparr>ps_script = \<lparr>variables = [], tasks = []\<rparr>, currentTask = None\<rparr>"

definition parseSSALContent :: "string \<Rightarrow> SSALScript" where
  "parseSSALContent content = ps_script (foldl parseLine initialParserState (splitLines content))"

section \<open>Notions used to state the properties\<close>

text \<open>
  A name made of word characters has no meaning of its own inside a pattern, so that the
  pattern built from it denotes the literal text that \<open>replaceGlobal\<close> looks for.
\<close>

definition wordNames :: "'w Executor \<Rightarrow> bool" where
  "wordNames ex =
     (list_all (\<lambda>v. list_all isWordChar (var_name v)) (variables (script ex))
      \<and> list_all (\<lambda>(k, v). list_all isWordChar k) (globalVariables ex)
      \<and> list_all (\<lambda>(k, v). list_all isWordChar k) (namedArgs ex))"

text \<open>
  The substitutions for \<open>$\<close> in the order \<open>replaceVariables\<close> applies them: the
  declared variables of the script, then the runtime variables.
\<close>

definition dollarEntries :: "'w Executor \<Rightarrow> (string \<times> string) list" where
  "dollarEntries ex = map (\<lambda>v. (var_name v, var_value v)) (variables (script ex)) @ globalVariables ex"

text \<open>
  A text as a sequence of pieces: plain text, and references \<open>$env("NAME")\<close> to
  variables of the environment. \<open>renderPieces\<close> is the text itself, and
  \<open>resolvePieces\<close> the text in which every reference to a variable that is set stands
  replaced by its value and every reference to a variable that is not set stands as it
  was written.
\<close>

datatype piece = Plain string | EnvRef string

definition envRefText :: "string \<Rightarrow> string" where
  \<open>envRefText n = ''$env("'' @ n @ ''")''\<close>

fun renderPieces :: "piece list \<Rightarrow> string" where
  "renderPieces [] = []"
| "renderPieces (Plain u # ps) = u @ renderPieces ps"
| "renderPieces (EnvRef n # ps) = envRefText n @ renderPieces ps"

fun resolvePieces :: "(string \<Rightarrow> string option) \<Rightarrow> piece list \<Rightarrow> string" where
  "resolvePieces env [] = []"
| "resolvePieces env (Plain u # ps) = u @ resolvePieces env ps"
| "resolvePieces env (EnvRef n # ps) =
     (case env n of Some v \<Rightarrow> v | None \<Rightarrow> envRefText n) @ resolvePieces env ps"

text \<open>
  The pieces the property is stated for: plain text without dollar sign and question
  mark, and names that are not empty and have no double quote, dollar sign or question
  mark. The names of the members that \<open>process.env\<close> inherits from
  \<open>Object.prototype\<close> are left out: for them \<open>process.env[name]\<close> is not a string
  and not \<open>undefined\<close>, which \<open>process_env\<close> does not describe.
\<close>

fun plainPiece :: "piece \<Rightarrow> bool" where
  "plainPiece (Plain u) = (CHR ''$'' \<notin> set u \<and> CHR ''?'' \<notin> set u)"
| "plainPiece (EnvRef n) =
     (n \<noteq> [] \<and> CHR 0x22 \<notin> set n \<and> CHR ''$'' \<notin> set n \<and> CHR ''?'' \<notin> set n
      \<and> n \<notin> set objectPrototypeKeys)"

text \<open>\<open>segs.join(sep)\<close>: the pieces of a text with a separator between them.\<close>

fun joinWith :: "string \<Rightarrow> string list \<Rightarrow> string" where
  "joinWith sep [] = []"
| "joinWith sep [x] = x"
| "joinWith sep (x # y # ys) = x @ sep @ joinWith sep (y # ys)"

text \<open>
  Positional substitution as one pass over the text: a question mark followed by one of
  the digits \<open>1\<close> to \<open>9\<close> that is at most the number of arguments is replaced by the
  argument of that index, whatever follows the digit.
\<close>

definition indexOfDigit :: "char \<Rightarrow> nat" where
  "indexOfDigit d = (if d \<in> set ''123456789'' then of_char d - 48 else 0)"

fun substUpTo :: "nat \<Rightarrow> string list \<Rightarrow> string \<Rightarrow> string" where
  "substUpTo j targs (c # d # r) =
     (if c = CHR ''?'' \<and> 1 \<le> indexOfDigit d \<and> indexOfDigit d \<le> j
      then targs ! (indexOfDigit d - 1) @ substUpTo j targs r
      else c # substUpTo j targs (d # r))"
| "substUpTo j targs r = r"

definition substPositional :: "string list \<Rightarrow> string \<Rightarrow> string" where
  "substPositional targs s = substUpTo (length targs) targs s"

text \<open>A text in which no question mark is followed by another one.\<close>

fun noDoubleQuestion :: "string \<Rightarrow> bool" where
  "noDoubleQuestion (c # d # r) = (\<not> (c = CHR ''?'' \<and> d = CHR ''?'') \<and> noDoubleQuestion (d # r))"
| "noDoubleQuestion r = True"

text \<open>
  What \<open>setVariable\<close> does to the runtime variables, and a list of assignments made
  one after the other.
\<close>

definition storeVariable :: "string \<Rightarrow> string \<Rightarrow> (string \<times> string) list \<Rightarrow> (string \<times> string) list" where
  "storeVariable name v gs = (if name = ''__proto__'' then gs else objectSet name v gs)"

definition assignAll :: "(string \<times> string) list \<Rightarrow> (string \<times> string) list \<Rightarrow> (string \<times> string) list" where
  "assignAll gs as = foldl (\<lambda>g (name, v). storeVariable name v g) gs as"

text \<open>
  The assignments, name and resolved value, that the \<open>var\<close> commands make while a
  command, the commands of a task, a task and a sequence of calls run, in the order in
  which they are made. A \<open>var\<close> command whose value cannot be resolved makes none, a
  \<open>tsk\<close> command makes those of the task it invokes, and any other command makes none;
  \<open>invoked\<close> gives the assignments of an invoked task as \<open>invoke\<close> gives its result.
\<close>

definition assignmentsOfCommand ::
  "('w Executor \<Rightarrow> string \<Rightarrow> (string \<times> string) list) \<Rightarrow> 'w host \<Rightarrow> string \<Rightarrow> Command
     \<Rightarrow> 'w Executor \<Rightarrow> (string \<times> string) list" where
  "assignmentsOfCommand invoked h taskName command ex =
     (if cmd_type command = ''tsk'' then
        (case replaceVariables h ex taskName (argAt (cmd_args command) 0) of
           Inl e \<Rightarrow> []
         | Inr s \<Rightarrow> invoked (emit (ConsoleLog (''Running task: '' @ s)) ex) s)
      else if cmd_type command = ''var'' then
        (case replaceVariables h ex taskName (argAt (cmd_args command) 1) of
           Inl e \<Rightarrow> []
         | Inr varValue \<Rightarrow>
             [(case argAt (cmd_args command) 0 of Some n \<Rightarrow> n | None \<Rightarrow> ''undefined'', varValue)])
      else [])"

fun assignmentsOfCommands ::
  "('w Executor \<Rightarrow> string \<Rightarrow> (string \<times> string) list)
     \<Rightarrow> ('w Executor \<Rightarrow> string \<Rightarrow> ExecutionResult option \<times> 'w Executor) \<Rightarrow> 'w host \<Rightarrow> string
     \<Rightarrow> Command list \<Rightarrow> 'w Executor \<Rightarrow> (string \<times> string) list" where
  "assignmentsOfCommands invoked invoke h taskName [] ex = []"
| "assignmentsOfCommands invoked invoke h taskName (command # rest) ex =
     assignmentsOfCommand invoked h taskName command ex
       @ (case executeCommand invoke h taskName command ex of
            (None, ex') \<Rightarrow> []
          | (Some result, ex') \<Rightarrow>
              if \<not> success result then []
              else assignmentsOfCommands invoked invoke h taskName rest ex')"

definition assignmentsOfTaskWith ::
  "('w Executor \<Rightarrow> string \<Rightarrow> (string \<times> string) list)
     \<Rightarrow> ('w Executor \<Rightarrow> string \<Rightarrow> ExecutionResult option \<times> 'w Executor) \<Rightarrow> 'w host
     \<Rightarrow> 'w Executor \<Rightarrow> string \<Rightarrow> (string \<times> string) list" where
  "assignmentsOfTaskWith invoked invoke h ex taskName =
     (case find (\<lambda>t. task_name t = taskName) (tasks (script ex)) of
        None \<Rightarrow> []
      | Some task \<Rightarrow> assignmentsOfCommands invoked invoke h taskName (task_commands task) ex)"

fun nestedAssignments ::
  "nat \<Rightarrow> 'w host \<Rightarrow> 'w Executor \<Rightarrow> string \<Rightarrow> (string \<times> string) list" where
  "nestedAssignments 0 h = (\<lambda>ex taskName. [])"
| "nestedAssignments (Suc depth) h =
     assignmentsOfTaskWith (nestedAssignments depth h) (nested depth h) h"

definition assignmentsOfTask ::
  "nat \<Rightarrow> 'w host \<Rightarrow> 'w Executor \<Rightarrow> string \<Rightarrow> (string \<times> string) list" where
  "assignmentsOfTask depth h ex taskName =
     assignmentsOfTaskWith (nestedAssignments depth h) (nested depth h) h ex taskName"

fun assignmentsOfCalls ::
  "nat \<Rightarrow> 'w host \<Rightarrow> 'w Executor \<Rightarrow> call list \<Rightarrow> (string \<times> string) list" where
  "assignmentsOfCalls depth h ex [] = []"
| "assignmentsOfCalls depth h ex (c # calls) =
     (case c of ExecuteTask taskName \<Rightarrow> assignmentsOfTask depth h ex taskName | _ \<Rightarrow> [])
       @ assignmentsOfCalls depth h (perform depth h ex c) calls"

text \<open>
  When the parser has a current task, that task is an element of the task list.
\<close>

definition taskOpen :: "ParserState \<Rightarrow> bool" where
  "taskOpen st = (case currentTask st of None \<Rightarrow> True | Some i \<Rightarrow> i < length (tasks (ps_script st)))"

text \<open>
  A name that a \<open>var\<close> command of the script assigns to.
\<close>

definition isVarName :: "SSALScript \<Rightarrow> string \<Rightarrow> bool" where
  "isVarName scr name =
     (\<exists>t \<in> set (tasks scr). \<exists>c \<in> set (task_commands t).
        cmd_type c = ''var'' \<and> argAt (cmd_args c) 0 = Some name)"

text \<open>
  An invocation function and the assignments that go with it: the invocation leaves the
  script alone, the runtime variables after it are those before it with the assignments
  made, and every assignment is one of a \<open>var\<close> command of the script.
\<close>

definition coherent ::
  "('w Executor \<Rightarrow> string \<Rightarrow> (string \<times> string) list)
     \<Rightarrow> ('w Executor \<Rightarrow> string \<Rightarrow> ExecutionResult option \<times> 'w Executor) \<Rightarrow> bool" where
  "coherent invoked invoke \<longleftrightarrow>
     (\<forall>e n. script (snd (invoke e n)) = script e
          \<and> globalVariables (snd (invoke e n)) = assignAll (globalVariables e) (invoked e n)
          \<and> (\<forall>(name, v) \<in> set (invoked e n). isVarName (script e) name))"

section \<open>An example host and script\<close>

text \<open>
  A host whose world is the list of the paths that exist. The command \<open>exit 3\<close> runs
  and exits with the status \<open>3\<close>, and every other command exits with \<open>0\<close>; the file
  \<open>/w/locked\<close> exists and cannot be removed; \<open>FOO\<close> is the one environment variable.
\<close>

definition exampleHost :: "string list host" where
  "exampleHost =
     \<lparr>process_env = (\<lambda>n. if n = ''FOO'' then Some ''bar'' else None),
      shell_child = (\<lambda>command dir w.
         (if command = ''exit 3''
          then \<lparr>child_ending = Exited 3, child_stdout = [], child_stderr = []\<rparr>
          else \<lparr>child_ending = Exited 0, child_stdout = ''ok'', child_stderr = []\<rparr>, w)),
      fs_existsSync = (\<lambda>w p. p \<in> set w),
      fs_unlinkSync = (\<lambda>w p. if p = ''/w/locked'' then Inl ''EPERM: operation not permitted'' else Inr (removeAll p w)),
      path_resolve = (\<lambda>dir p. dir @ ''/'' @ p)\<rparr>"

definition exampleScript :: SSALScript where
  "exampleScript =
     \<lparr>variables = [\<lparr>var_name = ''NAME'', var_value = ''declared''\<rparr>, \<lparr>var_name = ''A'', var_value = ''x''\<rparr>],
      tasks = [\<lparr>task_name = ''build'',
                task_commands = [\<lparr>cmd_type = ''ech'', cmd_args = [''a'']\<rparr>,
                                 \<lparr>cmd_type = ''zap'', cmd_args = [''now'']\<rparr>,
                                 \<lparr>cmd_type = ''ech'', cmd_args = [''b'']\<rparr>]\<rparr>,
               \<lparr>task_name = ''clean'',
                task_commands = [\<lparr>cmd_type = ''del'', cmd_args = [''main'']\<rparr>,
                                 \<lparr>cmd_type = ''tsk'', cmd_args = [''greet'']\<rparr>]\<rparr>,
               \<lparr>task_name = ''greet'',
                task_commands = [\<lparr>cmd_type = ''ech'', cmd_args = [''hello ?1'']\<rparr>]\<rparr>,
               \<lparr>task_name = ''config'',
                task_commands = [\<lparr>cmd_type = ''var'', cmd_args = [''MODE'', ''fast $A'']\<rparr>,
                                 \<lparr>cmd_type = ''tsk'', cmd_args = [''greet'']\<rparr>]\<rparr>,
               \<lparr>task_name = ''release'',
                task_commands = [\<lparr>cmd_type = ''tsk'', cmd_args = [''config'']\<rparr>,
                                 \<lparr>cmd_type = ''var'', cmd_args = [''MODE'', ''slow'']\<rparr>,
                                 \<lparr>cmd_type = ''var'', cmd_args = [''0'', ''zero'']\<rparr>]\<rparr>]\<rparr>"

definition exampleExecutor :: "string list Executor" where
  "exampleExecutor = newExecutor exampleScript ''/w'' [''/w/locked'']"

section \<open>Properties of the executor\<close>

text \<open>
  Claim C3, as amended. The result of a \<open>run\<close> command is a success exactly when the
  callback of \<open>exec\<close> receives no error, and \<open>exec\<close> passes an error for every
  ending of the child but the exit with status \<open>0\<close>: a child that runs and exits with
  another status is reported as the failure \<open>Command failed:\<close> with the message of
  that error.
\<close>

theorem run_success_iff_exit_zero:
  assumes "cmd_type command = ''run''"
    and "replaceVariables h ex taskName (argAt (cmd_args command) 0) = Inr s"
    and "shell_child h s (workingDir ex) (world ex) = (ch, w)"
  shows "\<exists>r ex'. executeCommand invoke h taskName command ex = (Some r, ex')
           \<and> (success r \<longleftrightarrow> cb_error (nodeExec s ch) = None)
           \<and> (success r \<longleftrightarrow> child_ending ch = Exited 0)
           \<and> (\<forall>status. child_ending ch = Exited status \<and> status \<noteq> 0 \<longrightarrow>
                 r = \<lparr>success = False,
                      message = Some (''Command failed: Command failed: '' @ s @ [CHR 0x0A]
                                        @ child_stderr ch)\<rparr>)"
  using assms
  by (cases "child_ending ch")
    (simp_all add: executeCommand_def runCommand_def nodeExec_def Let_def)

theorem run_success_iff_exit_zero_witness:
  "(\<exists>r ex'. executeCommand (nested 0 exampleHost) exampleHost ''build''
        \<lparr>cmd_type = ''run'', cmd_args = [''ls'']\<rparr> exampleExecutor = (Some r, ex') \<and> success r)
   \<and> (\<exists>r ex'. executeCommand (nested 0 exampleHost) exampleHost ''build''
        \<lparr>cmd_type = ''run'', cmd_args = [''exit 3'']\<rparr> exampleExecutor = (Some r, ex')
        \<and> r = \<lparr>success = False,
                 message = Some (''Command failed: Command failed: exit 3'' @ [CHR 0x0A])\<rparr>)"
proof -
  have l: "replaceVariables exampleHost exampleExecutor ''build''
             (argAt (cmd_args \<lparr>cmd_type = ''run'', cmd_args = [''ls'']\<rparr>) 0) = Inr ''ls''"
    and c: "replaceVariables exampleHost exampleExecutor ''build''
             (argAt (cmd_args \<lparr>cmd_type = ''run'', cmd_args = [''exit 3'']\<rparr>) 0) = Inr ''exit 3''"
    by code_simp+
  have sl: "shell_child exampleHost ''ls'' (workingDir exampleExecutor) (world exampleExecutor)
              = (\<lparr>child_ending = Exited 0, child_stdout = ''ok'', child_stderr = []\<rparr>, world exampleExecutor)"
    and sc: "shell_child exampleHost ''exit 3'' (workingDir exampleExecutor) (world exampleExecutor)
              = (\<lparr>child_ending = Exited 3, child_stdout = [], child_stderr = []\<rparr>, world exampleExecutor)"
    by (simp_all add: exampleHost_def)
  show ?thesis
    using run_success_iff_exit_zero [OF _ l sl, of "nested 0 exampleHost"]
      run_success_iff_exit_zero [OF _ c sc, of "nested 0 exampleHost"]
    by auto
qed

text \<open>
  Claim C3 as stated fails in its second half: the child of the command \<open>exit 3\<close> is
  spawned, runs and exits with the status \<open>3\<close>, and the result is a failure.
\<close>

theorem nonzero_exit_counterexample:
  "fst (shell_child exampleHost ''exit 3'' ''/w'' [''/w/locked''])
     = \<lparr>child_ending = Exited 3, child_stdout = [], child_stderr = []\<rparr>
   \<and> fst (executeCommand (nested 0 exampleHost) exampleHost ''build''
        \<lparr>cmd_type = ''run'', cmd_args = [''exit 3'']\<rparr> exampleExecutor)
     = Some \<lparr>success = False,
             message = Some (''Command failed: Command failed: exit 3'' @ [CHR 0x0A])\<rparr>"
  by code_simp

text \<open>
  Claim C9. When no task of the script has the requested name, \<open>executeTask\<close> returns
  the failure \<open>Task "<name>" not found\<close> and the executor is as it was: no command has
  run and nothing has been written.
\<close>

theorem executeTask_not_found:
  assumes "\<forall>t \<in> set (tasks (script ex)). task_name t \<noteq> taskName"
  shows \<open>executeTask depth h ex taskName =
           (Some \<lparr>success = False, message = Some (''Task "'' @ taskName @ ''" not found'')\<rparr>, ex)\<close>
proof -
  from assms have "find (\<lambda>t. task_name t = taskName) (tasks (script ex)) = None"
    by (simp add: find_None_iff)
  then show ?thesis
    by (simp add: executeTask_def executeTaskWith_def notFound_def)
qed

theorem executeTask_not_found_witness:
  \<open>executeTask 3 exampleHost exampleExecutor ''nope'' =
     (Some \<lparr>success = False, message = Some ''Task "nope" not found''\<rparr>, exampleExecutor)\<close>
  using executeTask_not_found [of exampleExecutor "''nope''" 3 exampleHost]
  by (simp add: exampleExecutor_def exampleScript_def newExecutor_def)

lemma emit_fields [simp]:
  "world (emit out ex) = world ex" "workingDir (emit out ex) = workingDir ex"
  "script (emit out ex) = script ex" "globalVariables (emit out ex) = globalVariables ex"
  "namedArgs (emit out ex) = namedArgs ex" "taskArgs (emit out ex) = taskArgs ex"
  by (simp_all add: emit_def)

lemma lookupTaskArgs_emit [simp]:
  "lookupTaskArgs (emit out ex) taskName = lookupTaskArgs ex taskName"
  by (simp add: lookupTaskArgs_def)

lemma substituteNames_emit [simp]:
  "substituteNames (emit out ex) targs s = substituteNames ex targs s"
  by (simp add: substituteNames_def)

lemma replaceVariables_emit [simp]:
  "replaceVariables h (emit out ex) taskName input = replaceVariables h ex taskName input"
  by (auto simp: replaceVariables_def split: sum.split option.split)

text \<open>
  Claim C8. A \<open>del\<close> command whose resolved path names no existing file returns a
  success and leaves the world as it was, so that a second execution returns a success as
  well; when the file exists and \<open>unlinkSync\<close> throws, the result is a failure whose
  message carries the text of the error.
\<close>

theorem del_missing_file_succeeds:
  assumes "cmd_type command = ''del''"
    and "replaceVariables h ex taskName (argAt (cmd_args command) 0) = Inr filePath"
  shows "(\<not> fs_existsSync h (world ex) (path_resolve h (workingDir ex) filePath) \<longrightarrow>
            (\<exists>ex1 ex2.
               executeCommand invoke h taskName command ex = (Some \<lparr>success = True, message = None\<rparr>, ex1)
             \<and> executeCommand invoke h taskName command ex1 = (Some \<lparr>success = True, message = None\<rparr>, ex2)
             \<and> world ex1 = world ex \<and> world ex2 = world ex))
       \<and> (\<forall>err. fs_existsSync h (world ex) (path_resolve h (workingDir ex) filePath)
              \<and> fs_unlinkSync h (world ex) (path_resolve h (workingDir ex) filePath) = Inl err \<longrightarrow>
            executeCommand invoke h taskName command ex =
              (Some \<lparr>success = False,
                     message = Some (''Failed to delete '' @ filePath @ '': '' @ err)\<rparr>, ex))"
  using assms
  by (simp add: executeCommand_def deleteFile_def Let_def)


theorem del_missing_file_succeeds_witness:
  "(\<exists>ex1 ex2.
      executeCommand (nested 0 exampleHost) exampleHost ''clean''
        \<lparr>cmd_type = ''del'', cmd_args = [''main'']\<rparr> exampleExecutor
          = (Some \<lparr>success = True, message = None\<rparr>, ex1)
    \<and> executeCommand (nested 0 exampleHost) exampleHost ''clean''
        \<lparr>cmd_type = ''del'', cmd_args = [''main'']\<rparr> ex1
          = (Some \<lparr>success = True, message = None\<rparr>, ex2)
    \<and> world ex1 = world exampleExecutor \<and> world ex2 = world exampleExecutor)
   \<and> executeCommand (nested 0 exampleHost) exampleHost ''clean''
        \<lparr>cmd_type = ''del'', cmd_args = [''locked'']\<rparr> exampleExecutor
          = (Some \<lparr>success = False,
                  message = Some ''Failed to delete locked: EPERM: operation not permitted''\<rparr>,
             exampleExecutor)"
proof -
  have m: "replaceVariables exampleHost exampleExecutor ''clean''
             (argAt (cmd_args \<lparr>cmd_type = ''del'', cmd_args = [''main'']\<rparr>) 0) = Inr ''main''"
    by code_simp
  have l: "replaceVariables exampleHost exampleExecutor ''clean''
             (argAt (cmd_args \<lparr>cmd_type = ''del'', cmd_args = [''locked'']\<rparr>) 0) = Inr ''locked''"
    by code_simp
  have ex: "world exampleExecutor = [''/w/locked'']" "workingDir exampleExecutor = ''/w''"
    by (simp_all add: exampleExecutor_def newExecutor_def)
  show ?thesis
    using del_missing_file_succeeds [OF _ m, of "nested 0 exampleHost"]
      del_missing_file_succeeds [OF _ l, of "nested 0 exampleHost"]
    by (simp add: ex exampleHost_def)
qed

lemma forCommands_stops:
  "allSucceed invoke h t pre ex = Some ex1 \<Longrightarrow>
   executeCommand invoke h t c ex1 = (Some r, ex2) \<Longrightarrow> \<not> success r \<Longrightarrow>
   forCommands invoke h t (pre @ c # post) ex = (Some r, ex2)"
proof (induction pre arbitrary: ex)
  case Nil
  then show ?case by simp
next
  case (Cons a pre)
  then show ?case
    by (auto split: prod.splits option.splits if_splits)
qed

lemma forCommands_completes:
  "allSucceed invoke h t cs ex = Some ex' \<Longrightarrow>
   forCommands invoke h t cs ex = (Some (completed t), ex')"
proof (induction cs arbitrary: ex)
  case Nil
  then show ?case by simp
next
  case (Cons a cs)
  then show ?case
    by (auto split: prod.splits option.splits if_splits)
qed

text \<open>
  Claim C4. For a task of the script, \<open>executeTask\<close> runs the commands in their order:
  when the commands before \<open>c\<close> have all succeeded and \<open>c\<close> returns a result that is
  not a success, that result and the state right after \<open>c\<close> are returned, whatever
  follows \<open>c\<close> in the task; when every command succeeds the result is the success
  \<open>Task "<name>" completed successfully\<close>.
\<close>

theorem executeTask_short_circuit:
  assumes "find (\<lambda>t. task_name t = taskName) (tasks (script ex)) = Some task"
  shows \<open>(\<forall>pre c post ex1 r ex2.
             task_commands task = pre @ c # post
           \<and> allSucceed (nested depth h) h taskName pre ex = Some ex1
           \<and> executeCommand (nested depth h) h taskName c ex1 = (Some r, ex2)
           \<and> \<not> success r
           \<longrightarrow> executeTask depth h ex taskName = (Some r, ex2))
       \<and> (\<forall>ex'. allSucceed (nested depth h) h taskName (task_commands task) ex = Some ex'
           \<longrightarrow> executeTask depth h ex taskName =
                 (Some \<lparr>success = True,
                        message = Some (''Task "'' @ taskName @ ''" completed successfully'')\<rparr>, ex'))\<close>
proof -
  have e: "executeTask depth h ex taskName =
             forCommands (nested depth h) h taskName (task_commands task) ex"
    using assms by (simp add: executeTask_def executeTaskWith_def)
  show ?thesis
    unfolding e using forCommands_stops forCommands_completes
    by (fastforce simp: completed_def)
qed


theorem executeTask_short_circuit_witness:
  \<open>executeTask 0 exampleHost exampleExecutor ''build'' =
     (Some \<lparr>success = False, message = Some ''Unknown command: zap''\<rparr>,
      exampleExecutor\<lparr>written := [ConsoleLog ''a'']\<rparr>)
   \<and> executeTask 0 exampleHost exampleExecutor ''greet'' =
     (Some \<lparr>success = True, message = Some ''Task "greet" completed successfully''\<rparr>,
      exampleExecutor\<lparr>written := [ConsoleLog ''hello ?1'']\<rparr>)\<close>
proof -
  let ?build = "\<lparr>task_name = ''build'',
                 task_commands = [\<lparr>cmd_type = ''ech'', cmd_args = [''a'']\<rparr>,
                                  \<lparr>cmd_type = ''zap'', cmd_args = [''now'']\<rparr>,
                                  \<lparr>cmd_type = ''ech'', cmd_args = [''b'']\<rparr>]\<rparr>"
  let ?greet = "\<lparr>task_name = ''greet'',
                 task_commands = [\<lparr>cmd_type = ''ech'', cmd_args = [''hello ?1'']\<rparr>]\<rparr>"
  let ?ex1 = "emit (ConsoleLog ''a'') exampleExecutor"
  let ?ex2 = "emit (ConsoleLog ''hello ?1'') exampleExecutor"
  have fb: "find (\<lambda>t. task_name t = ''build'') (tasks (script exampleExecutor)) = Some ?build"
    and fg: "find (\<lambda>t. task_name t = ''greet'') (tasks (script exampleExecutor)) = Some ?greet"
    by (simp_all add: exampleExecutor_def newExecutor_def exampleScript_def)
  have ra: "replaceVariables exampleHost exampleExecutor ''build'' (argAt [''a''] 0) = Inr ''a''"
    and rh: "replaceVariables exampleHost exampleExecutor ''greet'' (argAt [''hello ?1''] 0) = Inr ''hello ?1''"
    by code_simp+
  have a: "allSucceed (nested 0 exampleHost) exampleHost ''build''
             [\<lparr>cmd_type = ''ech'', cmd_args = [''a'']\<rparr>] exampleExecutor = Some ?ex1"
    by (simp add: executeCommand_def ra echo_def)
  have z: "executeCommand (nested 0 exampleHost) exampleHost ''build''
             \<lparr>cmd_type = ''zap'', cmd_args = [''now'']\<rparr> ?ex1
           = (Some \<lparr>success = False, message = Some ''Unknown command: zap''\<rparr>, ?ex1)"
    by (simp add: executeCommand_def)
  have g: "allSucceed (nested 0 exampleHost) exampleHost ''greet'' (task_commands ?greet) exampleExecutor
             = Some ?ex2"
    by (simp add: executeCommand_def rh echo_def)
  have w: "written exampleExecutor = []"
    by (simp add: exampleExecutor_def newExecutor_def)
  have "task_commands ?build = [\<lparr>cmd_type = ''ech'', cmd_args = [''a'']\<rparr>]
            @ \<lparr>cmd_type = ''zap'', cmd_args = [''now'']\<rparr> # [\<lparr>cmd_type = ''ech'', cmd_args = [''b'']\<rparr>]
          \<and> allSucceed (nested 0 exampleHost) exampleHost ''build''
               [\<lparr>cmd_type = ''ech'', cmd_args = [''a'']\<rparr>] exampleExecutor = Some ?ex1
          \<and> executeCommand (nested 0 exampleHost) exampleHost ''build''
               \<lparr>cmd_type = ''zap'', cmd_args = [''now'']\<rparr> ?ex1
              = (Some \<lparr>success = False, message = Some ''Unknown command: zap''\<rparr>, ?ex1)
          \<and> \<not> success \<lparr>success = False, message = Some ''Unknown command: zap''\<rparr>"
    using a z by simp
  then have "executeTask 0 exampleHost exampleExecutor ''build'' =
          (Some \<lparr>success = False, message = Some ''Unknown command: zap''\<rparr>, ?ex1)"
    by (rule executeTask_short_circuit [OF fb, THEN conjunct1, rule_format])
  moreover
  have \<open>executeTask 0 exampleHost exampleExecutor ''greet'' =
          (Some \<lparr>success = True, message = Some ''Task "greet" completed successfully''\<rparr>, ?ex2)\<close>
    using executeTask_short_circuit [OF fg, THEN conjunct2, rule_format, OF g] by simp
  ultimately show ?thesis by (simp add: emit_def w)
qed

lemma runCommand_frame [simp]:
  "script (snd (runCommand h c ex)) = script ex"
  "globalVariables (snd (runCommand h c ex)) = globalVariables ex"
  by (simp_all add: runCommand_def Let_def split: prod.split option.split)

lemma deleteFile_frame [simp]:
  "script (snd (deleteFile h p ex)) = script ex"
  "globalVariables (snd (deleteFile h p ex)) = globalVariables ex"
  by (simp_all add: deleteFile_def Let_def split: sum.split)

lemma echo_frame [simp]:
  "script (snd (echo m ex)) = script ex"
  "globalVariables (snd (echo m ex)) = globalVariables ex"
  by (simp_all add: echo_def)

lemma setVariable_script [simp]:
  "script (snd (setVariable n v ex)) = script ex"
  by (simp add: setVariable_def)

lemma setVariable_globals [simp]:
  "globalVariables (snd (setVariable n v ex)) = storeVariable n v (globalVariables ex)"
  by (simp add: setVariable_def storeVariable_def)

lemma assignAll_simps [simp]:
  "assignAll gs [] = gs"
  "assignAll gs (as @ bs) = assignAll (assignAll gs as) bs"
  "assignAll gs [(n, v)] = storeVariable n v gs"
  by (simp_all add: assignAll_def)

lemma replaceVariables_undefined:
  "replaceVariables h ex t None \<noteq> Inr v"
  by (simp add: replaceVariables_def split: sum.split)

lemma resolved_second_argument:
  assumes "replaceVariables h ex t (argAt xs 1) = Inr v"
  shows "argAt xs 0 = Some (xs ! 0)"
proof -
  have "argAt xs 1 \<noteq> None"
  proof
    assume "argAt xs 1 = None"
    with assms replaceVariables_undefined [of h ex t v] show False by simp
  qed
  then show ?thesis by (auto simp: argAt_def split: if_splits)
qed

lemma executeCommand_coherent:
  assumes "coherent invoked invoke"
    and "\<exists>t \<in> set (tasks (script ex)). c \<in> set (task_commands t)"
  shows "script (snd (executeCommand invoke h t c ex)) = script ex"
    and "globalVariables (snd (executeCommand invoke h t c ex))
           = assignAll (globalVariables ex) (assignmentsOfCommand invoked h t c ex)"
    and "\<forall>(name, v) \<in> set (assignmentsOfCommand invoked h t c ex). isVarName (script ex) name"
proof -
  have inv: "script (snd (invoke e n)) = script e"
    "globalVariables (snd (invoke e n)) = assignAll (globalVariables e) (invoked e n)"
    "\<forall>(name, v) \<in> set (invoked e n). isVarName (script e) name" for e n
    using assms(1) unfolding coherent_def by blast+
  have rt: "snd (runTask invoke n ex) = snd (invoke (emit (ConsoleLog (''Running task: '' @ n)) ex) n)" for n
    by (simp add: runTask_def split: prod.split option.split)
  show "script (snd (executeCommand invoke h t c ex)) = script ex"
    by (simp add: executeCommand_def rt inv split_beta split: sum.split)
  show "globalVariables (snd (executeCommand invoke h t c ex))
           = assignAll (globalVariables ex) (assignmentsOfCommand invoked h t c ex)"
    by (simp add: executeCommand_def assignmentsOfCommand_def rt inv split_beta split: sum.split)
  show "\<forall>(name, v) \<in> set (assignmentsOfCommand invoked h t c ex). isVarName (script ex) name"
  proof (cases "cmd_type c = ''var''")
    case True
    show ?thesis
    proof (cases "replaceVariables h ex t (argAt (cmd_args c) 1)")
      case (Inl e)
      with True show ?thesis by (simp add: assignmentsOfCommand_def)
    next
      case (Inr v)
      from resolved_second_argument [OF Inr] assms(2) True
      have "isVarName (script ex) (cmd_args c ! 0)"
        by (auto simp: isVarName_def)
      with True Inr resolved_second_argument [OF Inr] show ?thesis
        by (simp add: assignmentsOfCommand_def)
    qed
  next
    case False
    show ?thesis
    proof (cases "cmd_type c = ''tsk''")
      case True
      show ?thesis
      proof (cases "replaceVariables h ex t (argAt (cmd_args c) 0)")
        case (Inl e)
        with True show ?thesis by (simp add: assignmentsOfCommand_def)
      next
        case (Inr s)
        from inv(3) [of "emit (ConsoleLog (''Running task: '' @ s)) ex" s]
        have "\<forall>(name, v) \<in> set (invoked (emit (ConsoleLog (''Running task: '' @ s)) ex) s).
                isVarName (script ex) name"
          by simp
        with True Inr show ?thesis by (simp add: assignmentsOfCommand_def)
      qed
    next
      case nt: False
      with False show ?thesis by (simp add: assignmentsOfCommand_def)
    qed
  qed
qed


lemma forCommands_coherent:
  assumes "coherent invoked invoke"
  shows "\<forall>c \<in> set cs. \<exists>t \<in> set (tasks (script ex)). c \<in> set (task_commands t) \<Longrightarrow>
         script (snd (forCommands invoke h t cs ex)) = script ex
         \<and> globalVariables (snd (forCommands invoke h t cs ex))
             = assignAll (globalVariables ex) (assignmentsOfCommands invoked invoke h t cs ex)
         \<and> (\<forall>(name, v) \<in> set (assignmentsOfCommands invoked invoke h t cs ex).
               isVarName (script ex) name)"
proof (induction cs arbitrary: ex)
  case Nil
  show ?case by simp
next
  case (Cons c cs)
  obtain r ex' where e: "executeCommand invoke h t c ex = (r, ex')"
    by (cases "executeCommand invoke h t c ex")
  from Cons.prems have c: "\<exists>t \<in> set (tasks (script ex)). c \<in> set (task_commands t)"
    by simp
  note one = executeCommand_coherent [OF assms c, of h t]
  from one(1) e have s: "script ex' = script ex" by simp
  from one(2) e have g: "globalVariables ex'
      = assignAll (globalVariables ex) (assignmentsOfCommand invoked h t c ex)" by simp
  from Cons.prems s have "\<forall>c \<in> set cs. \<exists>t \<in> set (tasks (script ex')). c \<in> set (task_commands t)"
    by simp
  from Cons.IH [OF this] s have rest:
    "script (snd (forCommands invoke h t cs ex')) = script ex"
    "globalVariables (snd (forCommands invoke h t cs ex'))
       = assignAll (globalVariables ex') (assignmentsOfCommands invoked invoke h t cs ex')"
    "\<forall>(name, v) \<in> set (assignmentsOfCommands invoked invoke h t cs ex'). isVarName (script ex) name"
    by simp_all
  show ?case
  proof (cases r)
    case None
    with e s g one(3) show ?thesis by simp
  next
    case (Some res)
    show ?thesis
    proof (cases "success res")
      case True
      with Some e g rest one(3) show ?thesis by auto
    next
      case False
      with Some e s g one(3) show ?thesis by simp
    qed
  qed
qed

lemma executeTaskWith_coherent:
  fixes invoke :: "'w Executor \<Rightarrow> string \<Rightarrow> ExecutionResult option \<times> 'w Executor"
  assumes "coherent invoked invoke"
  shows "coherent (assignmentsOfTaskWith invoked invoke h) (executeTaskWith invoke h)"
  unfolding coherent_def
proof (intro allI)
  fix e :: "'w Executor" and n
  show "script (snd (executeTaskWith invoke h e n)) = script e
        \<and> globalVariables (snd (executeTaskWith invoke h e n))
            = assignAll (globalVariables e) (assignmentsOfTaskWith invoked invoke h e n)
        \<and> (\<forall>(name, v) \<in> set (assignmentsOfTaskWith invoked invoke h e n). isVarName (script e) name)"
  proof (cases "find (\<lambda>t. task_name t = n) (tasks (script e))")
    case None
    then show ?thesis
      by (simp add: executeTaskWith_def assignmentsOfTaskWith_def)
  next
    case (Some task)
    then have "task \<in> set (tasks (script e))"
      by (auto simp: find_Some_iff)
    then have "\<forall>c \<in> set (task_commands task). \<exists>t \<in> set (tasks (script e)). c \<in> set (task_commands t)"
      by blast
    from forCommands_coherent [OF assms this, of h n] Some show ?thesis
      by (simp add: executeTaskWith_def assignmentsOfTaskWith_def)
  qed
qed

lemma nested_coherent: "coherent (nestedAssignments depth h) (nested depth h)"
proof (induction depth)
  case 0
  show ?case by (simp add: coherent_def)
next
  case (Suc depth)
  then show ?case by (simp add: executeTaskWith_coherent)
qed

lemma executeTask_coherent:
  "script (snd (executeTask depth h ex n)) = script ex"
  "globalVariables (snd (executeTask depth h ex n))
     = assignAll (globalVariables ex) (assignmentsOfTask depth h ex n)"
  "\<forall>(name, v) \<in> set (assignmentsOfTask depth h ex n). isVarName (script ex) name"
  using executeTaskWith_coherent [OF nested_coherent, of depth h h]
  unfolding coherent_def executeTask_def assignmentsOfTask_def by blast+

lemma performAll_coherent:
  "script (performAll depth h ex calls) = script ex
   \<and> globalVariables (performAll depth h ex calls)
       = assignAll (globalVariables ex) (assignmentsOfCalls depth h ex calls)
   \<and> (\<forall>(name, v) \<in> set (assignmentsOfCalls depth h ex calls). isVarName (script ex) name)"
  unfolding performAll_def
proof (induction calls arbitrary: ex)
  case Nil
  show ?case by simp
next
  case (Cons c calls)
  have one: "script (perform depth h ex c) = script ex"
    "globalVariables (perform depth h ex c)
       = assignAll (globalVariables ex)
           (case c of ExecuteTask taskName \<Rightarrow> assignmentsOfTask depth h ex taskName | _ \<Rightarrow> [])"
    "\<forall>(name, v) \<in> set (case c of ExecuteTask taskName \<Rightarrow> assignmentsOfTask depth h ex taskName | _ \<Rightarrow> []).
       isVarName (script ex) name"
    by (cases c; simp add: setTaskArgs_def setNamedArgs_def executeTask_coherent)+
  from Cons [of "perform depth h ex c"] one show ?case
    by auto
qed

text \<open>
  Claim C7. Whatever sequence of calls a client makes on an executor, its script is the
  one it was constructed with. The runtime variables are empty in a new executor, and
  after the calls they are the ones before them with the assignments of the executed
  \<open>var\<close> commands made in their order, and nothing else: every such assignment is to
  the name of a \<open>var\<close> command of the script, \<open>setTaskArgs\<close>, \<open>setNamedArgs\<close> and
  the other commands contribute none, and with no \<open>var\<close> command in the script the
  variables stay as they are.
\<close>

theorem script_and_globals_frame:
  "script (performAll depth h ex calls) = script ex
   \<and> globalVariables (newExecutor scr dir w) = []
   \<and> globalVariables (performAll depth h ex calls)
       = assignAll (globalVariables ex) (assignmentsOfCalls depth h ex calls)
   \<and> (\<forall>(name, v) \<in> set (assignmentsOfCalls depth h ex calls).
         \<exists>t \<in> set (tasks (script ex)). \<exists>c \<in> set (task_commands t).
           cmd_type c = ''var'' \<and> argAt (cmd_args c) 0 = Some name)
   \<and> (\<not> hasVarCommand (script ex) \<longrightarrow>
         globalVariables (performAll depth h ex calls) = globalVariables ex)"
proof -
  note all = performAll_coherent [of depth h ex calls]
  have "assignmentsOfCalls depth h ex calls = []" if "\<not> hasVarCommand (script ex)"
  proof (cases "assignmentsOfCalls depth h ex calls")
    case Nil
    then show ?thesis .
  next
    case (Cons a as)
    obtain name v where "a = (name, v)" by (cases a)
    with Cons all have "isVarName (script ex) name" by auto
    with that show ?thesis by (auto simp: isVarName_def hasVarCommand_def)
  qed
  with all show ?thesis
    by (auto simp: newExecutor_def isVarName_def)
qed

theorem script_and_globals_frame_witness:
  "script (performAll 2 exampleHost exampleExecutor
             [SetTaskArgs ''greet'' [''you''], ExecuteTask ''release'', SetNamedArgs [], ExecuteTask ''build''])
     = exampleScript
   \<and> assignmentsOfCalls 2 exampleHost exampleExecutor
             [SetTaskArgs ''greet'' [''you''], ExecuteTask ''release'', SetNamedArgs [], ExecuteTask ''build'']
     = [(''MODE'', ''fast x''), (''MODE'', ''slow''), (''0'', ''zero'')]
   \<and> globalVariables (performAll 2 exampleHost exampleExecutor
             [SetTaskArgs ''greet'' [''you''], ExecuteTask ''release'', SetNamedArgs [], ExecuteTask ''build''])
     = [(''0'', ''zero''), (''MODE'', ''slow'')]"
proof -
  let ?calls = "[SetTaskArgs ''greet'' [''you''], ExecuteTask ''release'', SetNamedArgs [], ExecuteTask ''build'']"
  have a: "assignmentsOfCalls 2 exampleHost exampleExecutor ?calls
             = [(''MODE'', ''fast x''), (''MODE'', ''slow''), (''0'', ''zero'')]"
    by code_simp
  have b: "assignAll [] [(''MODE'', ''fast x''), (''MODE'', ''slow''), (''0'', ''zero'')]
             = [(''0'', ''zero''), (''MODE'', ''slow'')]"
    by code_simp
  have e: "script exampleExecutor = exampleScript" "globalVariables exampleExecutor = []"
    by (simp_all add: exampleExecutor_def newExecutor_def)
  from script_and_globals_frame [where depth = 2 and h = exampleHost and ex = exampleExecutor
      and calls = ?calls and scr = exampleScript and dir = "''/w''" and w = "[''/w/locked'']"]
  show ?thesis
    by (simp only: a b e simp_thms)
qed

section \<open>Properties of variable resolution\<close>

lemma startsWith_Cons [simp]:
  "startsWith (c # p) (d # s) \<longleftrightarrow> c = d \<and> startsWith p s"
  by (auto simp: startsWith_def)

lemma startsWith_Nil [simp]: "startsWith [] s" "startsWith (c # p) [] = False"
  by (simp_all add: startsWith_def)

lemma startsWith_append_same [simp]: "startsWith p (p @ s)"
  by (simp add: startsWith_def)

lemma getSubstitution_plain:
  "CHR ''$'' \<notin> set r \<Longrightarrow> getSubstitution m pre post r = r"
  by (induction m pre post r rule: getSubstitution.induct) auto

lemma replaceGlobal_absent:
  "p \<notin> set s \<Longrightarrow> replaceGlobal p ps r pre s = s"
  by (induction s arbitrary: pre) auto

lemma replaceGlobal_skip:
  "p \<notin> set u \<Longrightarrow> replaceGlobal p ps r pre (u @ s) = u @ replaceGlobal p ps r (pre @ u) s"
  by (induction u arbitrary: pre) auto

lemma replaceGlobal_hit:
  "replaceGlobal p ps r pre (p # ps @ w) =
     getSubstitution (p # ps) pre w r @ replaceGlobal p ps r (pre @ p # ps) w"
  by simp

lemma foldl_unchanged:
  "(\<And>x. x \<in> set xs \<Longrightarrow> f s x = s) \<Longrightarrow> foldl f s xs = s"
  by (induction xs) auto

lemma matchEnvAt_no_dollar: "c \<noteq> CHR ''$'' \<Longrightarrow> matchEnvAt (c # cs) = None"
  by (simp add: matchEnvAt_def)

lemma envVarMatchesFrom_no_dollar:
  "CHR ''$'' \<notin> set s \<Longrightarrow> envVarMatchesFrom k s = []"
  by (induction k s rule: envVarMatchesFrom.induct) (auto simp: matchEnvAt_no_dollar)

lemma replaceEnvVariables_no_dollar:
  "CHR ''$'' \<notin> set s \<Longrightarrow> replaceEnvVariables env s = s"
  by (simp add: replaceEnvVariables_def envVarMatches_def envVarMatchesFrom_no_dollar)

lemma replaceTaskArgs_no_question:
  "CHR ''?'' \<notin> set s \<Longrightarrow> replaceTaskArgs targs s = s"
  unfolding replaceTaskArgs_def by (rule foldl_unchanged) (simp add: replaceGlobal_absent)

lemma replaceNamedArgs_no_question:
  "CHR ''?'' \<notin> set s \<Longrightarrow> replaceNamedArgs nargs s = s"
  unfolding replaceNamedArgs_def by (rule foldl_unchanged) (auto simp: replaceGlobal_absent)

lemma dollar_passes:
  "replaceGlobalVariables (globalVariables ex) (replaceScriptVariables (variables (script ex)) s) =
     foldl (\<lambda>result (key, v). replaceGlobal (CHR ''$'') key v [] result) s (dollarEntries ex)"
proof -
  have "replaceScriptVariables vs s =
          foldl (\<lambda>result (key, v). replaceGlobal (CHR ''$'') key v [] result) s
            (map (\<lambda>v. (var_name v, var_value v)) vs)" for vs
    by (induction vs arbitrary: s) (simp_all add: replaceScriptVariables_def)
  then show ?thesis
    by (simp add: replaceGlobalVariables_def dollarEntries_def)
qed

lemma dollar_first_match:
  assumes "entries = before @ (N, V) # rest"
    and "\<forall>(n, v) \<in> set before. \<not> startsWith n (N @ w)"
    and "CHR ''$'' \<notin> set V" and "CHR ''$'' \<notin> set u" and "CHR ''$'' \<notin> set N"
    and "CHR ''$'' \<notin> set w"
  shows "foldl (\<lambda>result (key, v). replaceGlobal (CHR ''$'') key v [] result)
           (u @ CHR ''$'' # N @ w) entries = u @ V @ w"
proof -
  let ?f = "\<lambda>result (key, v). replaceGlobal (CHR ''$'') key v [] result"
  have miss: "?f (u @ CHR ''$'' # N @ w) x = u @ CHR ''$'' # N @ w" if "x \<in> set before" for x
  proof -
    obtain n v where x: "x = (n, v)" by (cases x)
    with that assms(2) have "\<not> startsWith n (N @ w)" by auto
    with assms(4,5,6) show ?thesis
      by (simp add: x replaceGlobal_skip replaceGlobal_absent)
  qed
  have hit: "?f (u @ CHR ''$'' # N @ w) (N, V) = u @ V @ w"
    using assms(3,4,6) by (simp add: replaceGlobal_skip replaceGlobal_absent getSubstitution_plain)
  have after: "?f (u @ V @ w) x = u @ V @ w" for x
    using assms(3,4,6) by (cases x) (simp add: replaceGlobal_absent)
  have "foldl ?f (u @ CHR ''$'' # N @ w) entries =
          foldl ?f (?f (foldl ?f (u @ CHR ''$'' # N @ w) before) (N, V)) rest"
    by (simp add: assms(1))
  also have "foldl ?f (u @ CHR ''$'' # N @ w) before = u @ CHR ''$'' # N @ w"
    by (rule foldl_unchanged) (rule miss)
  also have "?f (u @ CHR ''$'' # N @ w) (N, V) = u @ V @ w"
    by (rule hit)
  also have "foldl ?f (u @ V @ w) rest = u @ V @ w"
    by (rule foldl_unchanged) (rule after)
  finally show ?thesis .
qed

lemma resolve_first_match:
  assumes "lookupTaskArgs ex taskName = Inr targs"
    and "dollarEntries ex = before @ (N, V) # rest"
    and "\<forall>(n, v) \<in> set before. \<not> startsWith n (N @ w)"
    and "CHR ''$'' \<notin> set V" and "CHR ''$'' \<notin> set u" and "CHR ''$'' \<notin> set N"
    and "CHR ''$'' \<notin> set w"
    and "CHR ''?'' \<notin> set u" and "CHR ''?'' \<notin> set N" and "CHR ''?'' \<notin> set w"
  shows "replaceVariables h ex taskName (Some (u @ CHR ''$'' # N @ w)) = Inr (u @ V @ w)"
proof -
  have q: "CHR ''?'' \<notin> set (u @ CHR ''$'' # N @ w)"
    using assms(8-10) by simp
  have "substituteNames ex targs (u @ CHR ''$'' # N @ w) = u @ V @ w"
    unfolding substituteNames_def replaceTaskArgs_no_question [OF q] replaceNamedArgs_no_question [OF q]
      dollar_passes
    by (rule dollar_first_match [OF assms(2-7)])
  moreover have "CHR ''$'' \<notin> set (u @ V @ w)"
    using assms(4,5,7) by simp
  ultimately show ?thesis
    by (simp add: replaceVariables_def assms(1) replaceEnvVariables_no_dollar)
qed


lemma isWordChar_not_special:
  "isWordChar c \<Longrightarrow> c \<noteq> CHR ''$'' \<and> c \<noteq> CHR ''?''"
  by (auto simp: isWordChar_def)

lemma word_no_special:
  "list_all isWordChar n \<Longrightarrow> CHR ''$'' \<notin> set n \<and> CHR ''?'' \<notin> set n"
  using isWordChar_not_special by (auto simp: list_all_iff)

lemma wordNames_entry:
  assumes "wordNames ex" and "(n, v) \<in> set (dollarEntries ex)"
  shows "list_all isWordChar n"
  using assms by (auto simp: wordNames_def dollarEntries_def list_all_iff)

lemma joinWith_no_char:
  "c \<notin> set sep \<Longrightarrow> \<forall>x \<in> set xs. c \<notin> set x \<Longrightarrow> c \<notin> set (joinWith sep xs)"
  by (induction sep xs rule: joinWith.induct) auto

lemma replaceGlobal_join_hit:
  assumes "CHR ''$'' \<notin> set V"
  shows "\<forall>x \<in> set segs. CHR ''$'' \<notin> set x \<Longrightarrow>
         replaceGlobal (CHR ''$'') N V pre (joinWith (CHR ''$'' # N) segs) = joinWith V segs"
proof (induction "CHR ''$'' # N" segs arbitrary: pre rule: joinWith.induct)
  case 1
  show ?case by simp
next
  case (2 x)
  then show ?case by (simp add: replaceGlobal_absent)
next
  case (3 x y ys)
  from "3.prems" have x: "CHR ''$'' \<notin> set x" and r: "\<forall>x \<in> set (y # ys). CHR ''$'' \<notin> set x"
    by simp_all
  show ?case
    using assms "3.hyps" [OF r] by (simp add: replaceGlobal_skip [OF x] getSubstitution_plain)
qed

lemma not_startsWith_longer:
  assumes "\<not> startsWith n a" and "c \<notin> set n" and "r = [] \<or> hd r = c"
  shows "\<not> startsWith n (a @ r)"
proof
  assume s: "startsWith n (a @ r)"
  show False
  proof (cases "length n \<le> length a")
    case True
    with s assms(1) show False by (simp add: startsWith_def)
  next
    case False
    with s have n: "n = a @ take (length n - length a) r" by (simp add: startsWith_def)
    from False n have "r \<noteq> []" using assms(1) by (auto simp: startsWith_def)
    with assms(3) obtain r' where "r = c # r'" by (cases r) auto
    moreover from False obtain k where "length n - length a = Suc k"
      by (cases "length n - length a") auto
    ultimately have "n = a @ c # take k r'" using n by simp
    then have "c \<in> set n" by (metis in_set_conv_decomp)
    with assms(2) show False by simp
  qed
qed


lemma joinWith_Cons_shape:
  "\<exists>r. joinWith (c # sep) (y # ys) = y @ r \<and> (r = [] \<or> hd r = c)"
  by (cases ys) auto

lemma replaceGlobal_join_miss:
  assumes "CHR ''$'' \<notin> set n" and "CHR ''$'' \<notin> set N"
  shows "\<forall>x \<in> set segs. CHR ''$'' \<notin> set x \<Longrightarrow> \<forall>x \<in> set (tl segs). \<not> startsWith n (N @ x) \<Longrightarrow>
         replaceGlobal (CHR ''$'') n v pre (joinWith (CHR ''$'' # N) segs) = joinWith (CHR ''$'' # N) segs"
proof (induction "CHR ''$'' # N" segs arbitrary: pre rule: joinWith.induct)
  case 1
  show ?case by simp
next
  case (2 x)
  then show ?case by (simp add: replaceGlobal_absent)
next
  case (3 x y ys)
  from "3.prems" have x: "CHR ''$'' \<notin> set x" and r: "\<forall>x \<in> set (y # ys). CHR ''$'' \<notin> set x"
    and y: "\<not> startsWith n (N @ y)" and t: "\<forall>x \<in> set (tl (y # ys)). \<not> startsWith n (N @ x)"
    by simp_all
  obtain r' where j: "joinWith (CHR ''$'' # N) (y # ys) = y @ r'" and r': "r' = [] \<or> hd r' = CHR ''$''"
    using joinWith_Cons_shape by blast
  from not_startsWith_longer [OF y assms(1) r']
  have m: "\<not> startsWith n (N @ joinWith (CHR ''$'' # N) (y # ys))"
    by (simp add: j)
  have "replaceGlobal (CHR ''$'') n v pre' (N @ joinWith (CHR ''$'' # N) (y # ys))
          = N @ joinWith (CHR ''$'' # N) (y # ys)" for pre'
    by (simp add: replaceGlobal_skip [OF assms(2)] "3.hyps" [OF r t])
  with m show ?case
    by (simp add: replaceGlobal_skip [OF x])
qed

lemma dollar_join:
  assumes "entries = before @ (N, V) # rest"
    and "\<forall>(n, v) \<in> set before. CHR ''$'' \<notin> set n \<and> (\<forall>x \<in> set (tl segs). \<not> startsWith n (N @ x))"
    and "CHR ''$'' \<notin> set N" and "CHR ''$'' \<notin> set V"
    and "\<forall>x \<in> set segs. CHR ''$'' \<notin> set x"
  shows "foldl (\<lambda>result (key, v). replaceGlobal (CHR ''$'') key v [] result)
           (joinWith (CHR ''$'' # N) segs) entries = joinWith V segs"
proof -
  let ?f = "\<lambda>result (key, v). replaceGlobal (CHR ''$'') key v [] result"
  let ?t = "joinWith (CHR ''$'' # N) segs"
  have miss: "?f ?t x = ?t" if "x \<in> set before" for x
  proof -
    obtain n v where x: "x = (n, v)" by (cases x)
    with that assms(2) have "CHR ''$'' \<notin> set n" "\<forall>x \<in> set (tl segs). \<not> startsWith n (N @ x)"
      by auto
    then show ?thesis
      by (simp add: x replaceGlobal_join_miss [OF _ assms(3,5)])
  qed
  have hit: "?f ?t (N, V) = joinWith V segs"
    by (simp add: replaceGlobal_join_hit [OF assms(4,5)])
  have "CHR ''$'' \<notin> set (joinWith V segs)"
    using assms(4,5) by (rule joinWith_no_char)
  then have after: "?f (joinWith V segs) x = joinWith V segs" for x
    by (cases x) (simp add: replaceGlobal_absent)
  have "foldl ?f ?t entries = foldl ?f (?f (foldl ?f ?t before) (N, V)) rest"
    by (simp add: assms(1))
  also have "foldl ?f ?t before = ?t"
    by (rule foldl_unchanged) (rule miss)
  also have "?f ?t (N, V) = joinWith V segs"
    by (rule hit)
  also have "foldl ?f (joinWith V segs) rest = joinWith V segs"
    by (rule foldl_unchanged) (rule after)
  finally show ?thesis .
qed

text \<open>
  Claim C10. No word boundary is looked for after a variable name. Let \<open>N\<close> with value
  \<open>V\<close> be a declared or a runtime variable, and let a text hold any number of
  occurrences of \<open>$N\<close>, each followed by whatever text: the pieces \<open>segs\<close> joined by
  \<open>$N\<close>. Then every occurrence is replaced by \<open>V\<close>, also where word characters
  follow the name, so that \<open>$AB\<close> resolves to \<open>xB\<close> when \<open>A\<close> is \<open>x\<close>. No variable
  substituted before \<open>N\<close> has a name that starts the text after one of the dollar signs;
  the value and the pieces have no dollar sign, and the pieces no question mark, so that
  no other pass applies.
\<close>

theorem no_word_boundary_after_name:
  assumes "wordNames ex"
    and "lookupTaskArgs ex taskName = Inr targs"
    and "dollarEntries ex = before @ (N, V) # rest"
    and "\<forall>(n, v) \<in> set before. \<forall>x \<in> set (tl segs). \<not> startsWith n (N @ x)"
    and "CHR ''$'' \<notin> set V"
    and "\<forall>x \<in> set segs. CHR ''$'' \<notin> set x \<and> CHR ''?'' \<notin> set x"
  shows "replaceVariables h ex taskName (Some (joinWith (CHR ''$'' # N) segs)) = Inr (joinWith V segs)"
proof -
  let ?t = "joinWith (CHR ''$'' # N) segs"
  from assms(3) have "(N, V) \<in> set (dollarEntries ex)" by simp
  with assms(1) have N: "CHR ''$'' \<notin> set N" "CHR ''?'' \<notin> set N"
    using word_no_special wordNames_entry by blast+
  have b: "\<forall>(n, v) \<in> set before. CHR ''$'' \<notin> set n \<and> (\<forall>x \<in> set (tl segs). \<not> startsWith n (N @ x))"
  proof (clarify, rule conjI)
    fix n v
    assume "(n, v) \<in> set before"
    with assms(3) have "(n, v) \<in> set (dollarEntries ex)" by simp
    with assms(1) show "CHR ''$'' \<notin> set n"
      using word_no_special wordNames_entry by blast
    from \<open>(n, v) \<in> set before\<close> assms(4) show "\<forall>x \<in> set (tl segs). \<not> startsWith n (N @ x)"
      by auto
  qed
  from assms(6) have d: "\<forall>x \<in> set segs. CHR ''$'' \<notin> set x" and q0: "\<forall>x \<in> set segs. CHR ''?'' \<notin> set x"
    by auto
  from N(2) q0 have q: "CHR ''?'' \<notin> set ?t"
    by (intro joinWith_no_char) simp_all
  have "substituteNames ex targs ?t = joinWith V segs"
    unfolding substituteNames_def replaceTaskArgs_no_question [OF q] replaceNamedArgs_no_question [OF q]
      dollar_passes
    by (rule dollar_join [OF assms(3) b N(1) assms(5) d])
  moreover have "CHR ''$'' \<notin> set (joinWith V segs)"
    using assms(5) d by (rule joinWith_no_char)
  ultimately show ?thesis
    by (simp add: replaceVariables_def assms(2) replaceEnvVariables_no_dollar)
qed

theorem no_word_boundary_after_name_witness:
  "replaceVariables exampleHost exampleExecutor ''build'' (Some ''$AB and $A_$A'') = Inr ''xB and x_x''"
proof -
  have "wordNames exampleExecutor"
    by (simp add: wordNames_def exampleExecutor_def newExecutor_def exampleScript_def isWordChar_def)
  moreover have "lookupTaskArgs exampleExecutor ''build'' = Inr []"
    by (simp add: lookupTaskArgs_def exampleExecutor_def newExecutor_def objectPrototypeKeys_def)
  moreover have "dollarEntries exampleExecutor = [(''NAME'', ''declared'')] @ (''A'', ''x'') # []"
    by (simp add: dollarEntries_def exampleExecutor_def newExecutor_def exampleScript_def)
  moreover have "\<forall>(n, v) \<in> set [(''NAME'', ''declared'')].
      \<forall>x \<in> set (tl [[], ''B and '', ''_'', []]). \<not> startsWith n (''A'' @ x)"
    by (simp add: startsWith_def)
  moreover have "joinWith (CHR ''$'' # ''A'') [[], ''B and '', ''_'', []] = ''$AB and $A_$A''"
    "joinWith ''x'' [[], ''B and '', ''_'', []] = ''xB and x_x''"
    by simp_all
  ultimately show ?thesis
    using no_word_boundary_after_name [of exampleExecutor "''build''" "[]"
        "[(''NAME'', ''declared'')]" "''A''" "''x''" "[]" "[[], ''B and '', ''_'', []]" exampleHost]
    by simp
qed

text \<open>
  Claim C1, as amended. When a declared variable and a runtime variable have the same
  name, the token \<open>$NAME\<close> resolves to the declared value: the declared variables are
  substituted first, and the pass over the runtime variables finds no token left.
\<close>

theorem declared_value_wins:
  assumes "wordNames ex"
    and "lookupTaskArgs ex taskName = Inr targs"
    and "variables (script ex) = before @ d # rest"
    and "\<forall>b \<in> set before. \<not> startsWith (var_name b) (var_name d @ w)"
    and "map_of (globalVariables ex) (var_name d) = Some r"
    and "CHR ''$'' \<notin> set (var_value d)"
    and "CHR ''$'' \<notin> set u \<union> set w" and "CHR ''?'' \<notin> set u \<union> set w"
  shows "replaceVariables h ex taskName (Some (u @ CHR ''$'' # var_name d @ w))
           = Inr (u @ var_value d @ w)"
proof -
  let ?e = "\<lambda>v. (var_name v, var_value v)"
  have e: "dollarEntries ex = map ?e before @ (var_name d, var_value d) # (map ?e rest @ globalVariables ex)"
    by (simp add: dollarEntries_def assms(3))
  then have "(var_name d, var_value d) \<in> set (dollarEntries ex)" by simp
  with assms(1) have n: "CHR ''$'' \<notin> set (var_name d) \<and> CHR ''?'' \<notin> set (var_name d)"
    by (intro word_no_special wordNames_entry)
  have "\<forall>(n, v) \<in> set (map ?e before). \<not> startsWith n (var_name d @ w)"
    using assms(4) by auto
  with n assms(6-8) show ?thesis
    by (intro resolve_first_match [OF assms(2) e]) simp_all
qed

theorem declared_value_wins_witness:
  "replaceVariables exampleHost (exampleExecutor\<lparr>globalVariables := [(''NAME'', ''runtime'')]\<rparr>)
      ''build'' (Some ''echo $NAME!'') = Inr ''echo declared!''"
proof -
  let ?ex = "exampleExecutor\<lparr>globalVariables := [(''NAME'', ''runtime'')]\<rparr>"
  have "wordNames ?ex"
    by (simp add: wordNames_def exampleExecutor_def newExecutor_def exampleScript_def isWordChar_def)
  moreover have "lookupTaskArgs ?ex ''build'' = Inr []"
    by (simp add: lookupTaskArgs_def exampleExecutor_def newExecutor_def objectPrototypeKeys_def)
  moreover have "variables (script ?ex) =
      [] @ \<lparr>var_name = ''NAME'', var_value = ''declared''\<rparr> # [\<lparr>var_name = ''A'', var_value = ''x''\<rparr>]"
    by (simp add: exampleExecutor_def newExecutor_def exampleScript_def)
  ultimately show ?thesis
    using declared_value_wins [of ?ex "''build''" "[]" "[]"
        "\<lparr>var_name = ''NAME'', var_value = ''declared''\<rparr>" "[\<lparr>var_name = ''A'', var_value = ''x''\<rparr>]"
        "''!''" "''runtime''" "''echo ''" exampleHost]
    by simp
qed

text \<open>
  Claim C1 as stated fails: after the command \<open>var NAME = "runtime"\<close> has run on the
  example script, which declares \<open>NAME\<close> as \<open>declared\<close>, the text \<open>$NAME\<close> resolves
  to \<open>declared\<close>.
\<close>

theorem runtime_override_counterexample:
  "map_of (globalVariables (snd (executeCommand (nested 0 exampleHost) exampleHost ''build''
       \<lparr>cmd_type = ''var'', cmd_args = [''NAME'', ''runtime'']\<rparr> exampleExecutor))) ''NAME'' = Some ''runtime''
   \<and> replaceVariables exampleHost (snd (executeCommand (nested 0 exampleHost) exampleHost ''build''
       \<lparr>cmd_type = ''var'', cmd_args = [''NAME'', ''runtime'']\<rparr> exampleExecutor)) ''build'' (Some ''$NAME'')
      = Inr ''declared''
   \<and> replaceVariables exampleHost (snd (executeCommand (nested 0 exampleHost) exampleHost ''build''
       \<lparr>cmd_type = ''var'', cmd_args = [''NAME'', ''runtime'']\<rparr> exampleExecutor)) ''build'' (Some ''$NAME'')
      \<noteq> Inr ''runtime''"
  by code_simp

lemma envRefText_Cons:
  \<open>envRefText n = CHR ''$'' # ''env("'' @ n @ ''")''\<close>
  by (simp add: envRefText_def)

lemma renderPieces_no_question:
  "list_all plainPiece ps \<Longrightarrow> CHR ''?'' \<notin> set (renderPieces ps)"
  by (induction ps rule: renderPieces.induct) (auto simp: envRefText_def)

lemma isWordChar_not_paren:
  "isWordChar c \<Longrightarrow> c \<noteq> CHR ''(''"
  by (auto simp: isWordChar_def)

lemma word_no_paren:
  "list_all isWordChar n \<Longrightarrow> CHR ''('' \<notin> set n"
  using isWordChar_not_paren by (auto simp: list_all_iff)

lemma replaceGlobal_miss:
  "\<not> startsWith ps cs \<Longrightarrow>
   replaceGlobal p ps r pre (p # cs) = p # replaceGlobal p ps r (pre @ [p]) cs"
  by simp

lemma replaceGlobal_pieces:
  assumes "list_all isWordChar k" and "\<not> startsWith k ''env''"
  shows "list_all plainPiece ps \<Longrightarrow>
         replaceGlobal (CHR ''$'') k v pre (renderPieces ps) = renderPieces ps"
proof (induction ps arbitrary: pre rule: renderPieces.induct)
  case 1
  show ?case by simp
next
  case (2 u ps)
  from "2.prems" have u: "CHR ''$'' \<notin> set u" and ps: "list_all plainPiece ps" by simp_all
  have "replaceGlobal (CHR ''$'') k v pre (u @ renderPieces ps)
      = u @ replaceGlobal (CHR ''$'') k v (pre @ u) (renderPieces ps)"
    by (rule replaceGlobal_skip [OF u])
  also have "\<dots> = u @ renderPieces ps"
    by (simp only: "2.IH" [OF ps])
  finally show ?case by (simp only: renderPieces.simps)
next
  case (3 n ps)
  define body where \<open>body = ''env("'' @ n @ ''")''\<close>
  from "3.prems" have n: "CHR ''$'' \<notin> set n" and ps: "list_all plainPiece ps" by simp_all
  from assms(1) have "CHR ''('' \<notin> set k"
    by (rule word_no_paren)
  from not_startsWith_longer [OF assms(2) this, of \<open>''("'' @ n @ ''")'' @ renderPieces ps\<close>]
  have m: "\<not> startsWith k (body @ renderPieces ps)" by (simp add: body_def)
  from n have d: "CHR ''$'' \<notin> set body" by (simp add: body_def)
  have r: "renderPieces (EnvRef n # ps) = CHR ''$'' # body @ renderPieces ps"
    by (simp add: envRefText_Cons body_def)
  have "replaceGlobal (CHR ''$'') k v pre (CHR ''$'' # body @ renderPieces ps)
      = CHR ''$'' # replaceGlobal (CHR ''$'') k v (pre @ [CHR ''$'']) (body @ renderPieces ps)"
    by (rule replaceGlobal_miss [OF m])
  also have "\<dots> = CHR ''$'' # body
        @ replaceGlobal (CHR ''$'') k v ((pre @ [CHR ''$'']) @ body) (renderPieces ps)"
    by (simp only: replaceGlobal_skip [OF d])
  also have "\<dots> = CHR ''$'' # body @ renderPieces ps"
    by (simp only: "3.IH" [OF ps])
  finally show ?case by (simp only: r)
qed

lemma substituteNames_pieces:
  assumes "wordNames ex"
    and "\<forall>(k, v) \<in> set (dollarEntries ex). \<not> startsWith k ''env''"
    and "list_all plainPiece ps"
  shows "substituteNames ex targs (renderPieces ps) = renderPieces ps"
proof -
  let ?f = "\<lambda>result (key, v). replaceGlobal (CHR ''$'') key v [] result"
  note q = renderPieces_no_question [OF assms(3)]
  have "?f (renderPieces ps) x = renderPieces ps" if "x \<in> set (dollarEntries ex)" for x
  proof -
    obtain k v where x: "x = (k, v)" by (cases x)
    with that assms(1) have "list_all isWordChar k" by (auto intro: wordNames_entry)
    moreover from that x assms(2) have "\<not> startsWith k ''env''" by auto
    ultimately show ?thesis
      by (simp add: x replaceGlobal_pieces [OF _ _ assms(3)])
  qed
  then have "foldl ?f (renderPieces ps) (dollarEntries ex) = renderPieces ps"
    by (rule foldl_unchanged)
  then show ?thesis
    by (simp add: substituteNames_def replaceTaskArgs_no_question [OF q]
        replaceNamedArgs_no_question [OF q] dollar_passes)
qed

lemma until_quote:
  "c \<notin> set n \<Longrightarrow> takeWhile (\<lambda>x. x \<noteq> c) (n @ c # Y) = n"
  "c \<notin> set n \<Longrightarrow> dropWhile (\<lambda>x. x \<noteq> c) (n @ c # Y) = c # Y"
  by (induction n) auto

lemma matchEnvAt_ref:
  assumes "n \<noteq> []" and "CHR 0x22 \<notin> set n"
  shows "matchEnvAt (envRefText n @ Y) = Some (envRefText n, n, Y)"
  using assms(1) by (simp add: matchEnvAt_def envRefText_def Let_def until_quote [OF assms(2)])

lemma envVarMatchesFrom_plain:
  "CHR ''$'' \<notin> set u \<Longrightarrow> envVarMatchesFrom 0 (u @ Y) = envVarMatchesFrom 0 Y"
  by (induction u) (auto simp: matchEnvAt_no_dollar)

lemma envVarMatchesFrom_skip:
  "envVarMatchesFrom (length x) (x @ Y) = envVarMatchesFrom 0 Y"
  by (induction x) simp_all

lemma envVarMatchesFrom_ref:
  assumes "n \<noteq> []" and "CHR 0x22 \<notin> set n"
  shows "envVarMatchesFrom 0 (envRefText n @ Y) = envRefText n # envVarMatchesFrom 0 Y"
proof -
  obtain t where t: "envRefText n = CHR ''$'' # t" by (simp add: envRefText_Cons)
  have "envVarMatchesFrom 0 (CHR ''$'' # t @ Y)
      = (case matchEnvAt (CHR ''$'' # t @ Y) of
           Some (m, n', r) \<Rightarrow> m # envVarMatchesFrom (length m - 1) (t @ Y)
         | None \<Rightarrow> envVarMatchesFrom 0 (t @ Y))"
    by (simp only: envVarMatchesFrom.simps)
  also have "matchEnvAt (CHR ''$'' # t @ Y) = Some (CHR ''$'' # t, n, Y)"
    using matchEnvAt_ref [OF assms, of Y] by (simp add: t)
  finally have "envVarMatchesFrom 0 (CHR ''$'' # t @ Y)
      = (CHR ''$'' # t) # envVarMatchesFrom (length t) (t @ Y)"
    by simp
  then show ?thesis by (simp add: t envVarMatchesFrom_skip)
qed

lemma envVarName_ref:
  assumes "n \<noteq> []" and "CHR 0x22 \<notin> set n"
  shows "envVarName (envRefText n) = Some n"
proof -
  obtain t where t: "envRefText n = CHR ''$'' # t" by (simp add: envRefText_Cons)
  from matchEnvAt_ref [OF assms, of "[]"] have "searchEnv (CHR ''$'' # t) = Some (CHR ''$'' # t, n, [])"
    by (simp add: t)
  then show ?thesis by (simp add: envVarName_def t)
qed

lemma replaceFirst_skip:
  "c \<notin> set u \<Longrightarrow>
   replaceFirst (c # m) v pre (u @ Y) = u @ replaceFirst (c # m) v (pre @ u) Y"
  by (induction u arbitrary: pre) auto

lemma replaceFirst_miss:
  "\<not> startsWith m cs \<Longrightarrow>
   replaceFirst (c # m) v pre (c # cs) = c # replaceFirst (c # m) v (pre @ [c]) cs"
  by simp

lemma replaceFirst_hit:
  "m \<noteq> [] \<Longrightarrow> replaceFirst m v pre (m @ R) = getSubstitution m pre R v @ R"
  by (cases m) simp_all

lemma same_up_to:
  "c \<notin> set n \<Longrightarrow> c \<notin> set n' \<Longrightarrow> startsWith (n @ c # x) (n' @ c # y) \<Longrightarrow> n = n'"
proof (induction n arbitrary: n')
  case Nil
  then show ?case by (cases n') auto
next
  case (Cons a n)
  then show ?case by (cases n') auto
qed

lemma other_reference:
  assumes "CHR 0x22 \<notin> set n" and "CHR 0x22 \<notin> set n'" and "n \<noteq> n'"
  shows \<open>\<not> startsWith (''env("'' @ n @ ''")'') (''env("'' @ n' @ ''")'' @ Z)\<close>
proof
  assume \<open>startsWith (''env("'' @ n @ ''")'') (''env("'' @ n' @ ''")'' @ Z)\<close>
  then have "startsWith (n @ CHR 0x22 # '')'') (n' @ CHR 0x22 # CHR '')'' # Z)"
    by simp
  from same_up_to [OF assms(1,2) this] assms(3) show False by simp
qed

lemma replaceFirst_past_pieces:
  assumes pat: \<open>pat = ''env("'' @ n @ ''")''\<close> and n: "CHR 0x22 \<notin> set n" and v: "env n = Some v"
  shows "list_all plainPiece qs \<Longrightarrow>
         \<forall>n' v'. EnvRef n' \<in> set qs \<and> env n' = Some v' \<longrightarrow> CHR ''$'' \<notin> set v' \<Longrightarrow>
         replaceFirst (CHR ''$'' # pat) v pre (resolvePieces env qs @ Y)
           = resolvePieces env qs @ replaceFirst (CHR ''$'' # pat) v (pre @ resolvePieces env qs) Y"
proof (induction qs arbitrary: pre rule: renderPieces.induct)
  case 1
  show ?case by simp
next
  case (2 u qs)
  from "2.prems" have u: "CHR ''$'' \<notin> set u" and qs: "list_all plainPiece qs"
    and vs: "\<forall>n' v'. EnvRef n' \<in> set qs \<and> env n' = Some v' \<longrightarrow> CHR ''$'' \<notin> set v'"
    by simp_all
  show ?case
    by (simp add: replaceFirst_skip [OF u] "2.IH" [OF qs vs])
next
  case (3 n' qs)
  from "3.prems" have n': "CHR ''$'' \<notin> set n'" "CHR 0x22 \<notin> set n'" and qs: "list_all plainPiece qs"
    and vs: "\<forall>n' v'. EnvRef n' \<in> set qs \<and> env n' = Some v' \<longrightarrow> CHR ''$'' \<notin> set v'"
    by auto
  note IH = "3.IH" [OF qs vs]
  show ?case
  proof (cases "env n'")
    case (Some v')
    with "3.prems" have d: "CHR ''$'' \<notin> set v'" by auto
    show ?thesis
      by (simp add: Some replaceFirst_skip [OF d] IH)
  next
    case None
    with v have "n \<noteq> n'" by auto
    define body where \<open>body = ''env("'' @ n' @ ''")''\<close>
    define R where "R = resolvePieces env qs"
    from other_reference [OF n n'(2) \<open>n \<noteq> n'\<close>, of "R @ Y"]
    have m: "\<not> startsWith pat (body @ R @ Y)" by (simp add: body_def pat)
    from n'(1) have d: "CHR ''$'' \<notin> set body" by (simp add: body_def)
    have e: "resolvePieces env (EnvRef n' # qs) = CHR ''$'' # body @ R"
      by (simp add: None envRefText_Cons body_def R_def)
    have "replaceFirst (CHR ''$'' # pat) v pre ((CHR ''$'' # body @ R) @ Y)
        = CHR ''$'' # replaceFirst (CHR ''$'' # pat) v (pre @ [CHR ''$'']) (body @ R @ Y)"
      using replaceFirst_miss [OF m] by simp
    also have "\<dots> = CHR ''$'' # body @ replaceFirst (CHR ''$'' # pat) v ((pre @ [CHR ''$'']) @ body) (R @ Y)"
      by (simp only: replaceFirst_skip [OF d])
    also have "\<dots> = CHR ''$'' # body @ R
          @ replaceFirst (CHR ''$'' # pat) v (((pre @ [CHR ''$'']) @ body) @ R) Y"
      by (simp only: R_def IH)
    also have "\<dots> = (CHR ''$'' # body @ R)
          @ replaceFirst (CHR ''$'' # pat) v (pre @ (CHR ''$'' # body @ R)) Y"
      by simp
    finally show ?thesis
      by (simp only: e)
  qed
qed

lemma replaceFirst_past_resolved:
  assumes "CHR 0x22 \<notin> set n" and "env n = Some v" and "list_all plainPiece qs"
    and "\<forall>n' v'. EnvRef n' \<in> set qs \<and> env n' = Some v' \<longrightarrow> CHR ''$'' \<notin> set v'"
  shows "replaceFirst (envRefText n) v pre (resolvePieces env qs @ Y)
           = resolvePieces env qs @ replaceFirst (envRefText n) v (pre @ resolvePieces env qs) Y"
  using replaceFirst_past_pieces [OF refl assms] by (simp only: envRefText_Cons)

lemma resolvePieces_append:
  "resolvePieces env (qs @ ps) = resolvePieces env qs @ resolvePieces env ps"
  by (induction qs rule: renderPieces.induct) simp_all

lemma replaceEnvMatch_ref:
  assumes "list_all plainPiece qs" and "plainPiece (EnvRef n)"
    and "\<forall>n' v'. EnvRef n' \<in> set (qs @ [EnvRef n]) \<and> env n' = Some v' \<longrightarrow> CHR ''$'' \<notin> set v'"
  shows "replaceEnvMatch env (resolvePieces env qs @ envRefText n @ R) (envRefText n)
         = resolvePieces env (qs @ [EnvRef n]) @ R"
proof (cases "env n")
  case None
  with assms(2) show ?thesis
    by (simp add: replaceEnvMatch_def envVarName_ref resolvePieces_append)
next
  case (Some v)
  from assms(2) have n: "n \<noteq> []" "CHR 0x22 \<notin> set n" by simp_all
  from assms(3) Some have d: "CHR ''$'' \<notin> set v" by auto
  from assms(3) have vs: "\<forall>n' v'. EnvRef n' \<in> set qs \<and> env n' = Some v' \<longrightarrow> CHR ''$'' \<notin> set v'"
    by auto
  have "envRefText n \<noteq> []" by (simp add: envRefText_Cons)
  then have hit: "replaceFirst (envRefText n) v P (envRefText n @ R) = v @ R" for P
    by (simp add: replaceFirst_hit getSubstitution_plain [OF d])
  have "replaceFirst (envRefText n) v [] (resolvePieces env qs @ envRefText n @ R)
      = resolvePieces env qs @ v @ R"
    by (simp only: replaceFirst_past_resolved [OF n(2) Some assms(1) vs] hit)
  with n Some show ?thesis
    by (simp add: replaceEnvMatch_def envVarName_ref resolvePieces_append)
qed

lemma env_pass_pieces:
  "list_all plainPiece qs \<Longrightarrow> list_all plainPiece ps \<Longrightarrow>
   \<forall>n v. EnvRef n \<in> set (qs @ ps) \<and> env n = Some v \<longrightarrow> CHR ''$'' \<notin> set v \<Longrightarrow>
   foldl (replaceEnvMatch env) (resolvePieces env qs @ renderPieces ps)
       (envVarMatchesFrom 0 (renderPieces ps))
     = resolvePieces env (qs @ ps)"
proof (induction ps arbitrary: qs rule: renderPieces.induct)
  case 1
  show ?case by simp
next
  case (2 u ps)
  from "2.prems" have u: "CHR ''$'' \<notin> set u" by simp
  from "2.prems" have "foldl (replaceEnvMatch env) (resolvePieces env (qs @ [Plain u]) @ renderPieces ps)
       (envVarMatchesFrom 0 (renderPieces ps))
     = resolvePieces env ((qs @ [Plain u]) @ ps)"
    by (intro "2.IH") simp_all
  then show ?case
    by (simp add: envVarMatchesFrom_plain [OF u] resolvePieces_append)
next
  case (3 n ps)
  from "3.prems" have n: "n \<noteq> []" "CHR 0x22 \<notin> set n" and pn: "plainPiece (EnvRef n)" by simp_all
  from "3.prems" have vs: "\<forall>n' v'. EnvRef n' \<in> set (qs @ [EnvRef n]) \<and> env n' = Some v' \<longrightarrow> CHR ''$'' \<notin> set v'"
    by auto
  from "3.prems" have IH: "foldl (replaceEnvMatch env) (resolvePieces env (qs @ [EnvRef n]) @ renderPieces ps)
       (envVarMatchesFrom 0 (renderPieces ps))
     = resolvePieces env ((qs @ [EnvRef n]) @ ps)"
    by (intro "3.IH") simp_all
  have "foldl (replaceEnvMatch env) (resolvePieces env qs @ renderPieces (EnvRef n # ps))
       (envVarMatchesFrom 0 (renderPieces (EnvRef n # ps)))
     = foldl (replaceEnvMatch env)
         (replaceEnvMatch env (resolvePieces env qs @ envRefText n @ renderPieces ps) (envRefText n))
         (envVarMatchesFrom 0 (renderPieces ps))"
    by (simp add: envVarMatchesFrom_ref [OF n])
  also have "\<dots> = foldl (replaceEnvMatch env) (resolvePieces env (qs @ [EnvRef n]) @ renderPieces ps)
         (envVarMatchesFrom 0 (renderPieces ps))"
    by (simp only: replaceEnvMatch_ref [OF "3.prems"(1) pn vs])
  also note IH
  finally show ?case by simp
qed

text \<open>
  Claim C2, as amended. Take a text made of plain pieces, without dollar sign and
  question mark, and of references \<open>$env("NAME")\<close>, whose names are not empty, have no
  double quote, dollar sign or question mark and name no member inherited from
  \<open>Object.prototype\<close>. Let the names of the variables and of the named arguments be
  words, let no declared or runtime variable have a name that \<open>env\<close> starts with
  (the empty name, \<open>e\<close>, \<open>en\<close>, \<open>env\<close>), and let the values of the referenced
  variables that are set have no dollar sign. Then variable resolution does not fail,
  and it returns the text in which every reference to a variable that is set is
  replaced by its value and every reference to a variable that is not set is left as
  it was written: nothing else changes, and no reference becomes the empty string.
\<close>

theorem env_references_resolved:
  assumes "wordNames ex"
    and "lookupTaskArgs ex taskName = Inr targs"
    and "\<forall>(k, v) \<in> set (dollarEntries ex). \<not> startsWith k ''env''"
    and "list_all plainPiece ps"
    and "\<forall>n v. EnvRef n \<in> set ps \<and> process_env h n = Some v \<longrightarrow> CHR ''$'' \<notin> set v"
  shows "replaceVariables h ex taskName (Some (renderPieces ps))
         = Inr (resolvePieces (process_env h) ps)"
proof -
  from env_pass_pieces [of "[]" ps "process_env h"] assms(4,5)
  have "replaceEnvVariables (process_env h) (renderPieces ps) = resolvePieces (process_env h) ps"
    by (simp add: replaceEnvVariables_def envVarMatches_def)
  then show ?thesis
    by (simp add: replaceVariables_def assms(2) substituteNames_pieces [OF assms(1,3,4)])
qed

theorem env_references_resolved_witness:
  \<open>replaceVariables exampleHost exampleExecutor ''build''
       (Some ''x$env("BAZ")y$env("FOO")$env("BAZ")'')
     = Inr ''x$env("BAZ")ybar$env("BAZ")''\<close>
proof -
  have "wordNames exampleExecutor"
    by (simp add: wordNames_def exampleExecutor_def newExecutor_def exampleScript_def isWordChar_def)
  moreover have "lookupTaskArgs exampleExecutor ''build'' = Inr []"
    by (simp add: lookupTaskArgs_def exampleExecutor_def newExecutor_def objectPrototypeKeys_def)
  moreover have "\<forall>(k, v) \<in> set (dollarEntries exampleExecutor). \<not> startsWith k ''env''"
    by (simp add: dollarEntries_def exampleExecutor_def newExecutor_def exampleScript_def)
  moreover have "list_all plainPiece [Plain ''x'', EnvRef ''BAZ'', Plain ''y'', EnvRef ''FOO'', EnvRef ''BAZ'']"
    by (simp add: objectPrototypeKeys_def)
  moreover have "\<forall>n v. EnvRef n \<in> set [Plain ''x'', EnvRef ''BAZ'', Plain ''y'', EnvRef ''FOO'', EnvRef ''BAZ'']
      \<and> process_env exampleHost n = Some v \<longrightarrow> CHR ''$'' \<notin> set v"
    by (simp add: exampleHost_def)
  ultimately show ?thesis
    using env_references_resolved [of exampleExecutor "''build''" "[]"
        "[Plain ''x'', EnvRef ''BAZ'', Plain ''y'', EnvRef ''FOO'', EnvRef ''BAZ'']" exampleHost]
    by (simp add: envRefText_def exampleHost_def)
qed

text \<open>
  Claim C2 as stated fails: with \<open>BAZ\<close> unset, the reference stays where it is and is not
  replaced by the empty string.
\<close>

theorem unset_env_reference_counterexample:
  \<open>process_env exampleHost ''BAZ'' = None
   \<and> replaceVariables exampleHost exampleExecutor ''build'' (Some ''x$env("BAZ")y'') = Inr ''x$env("BAZ")y''
   \<and> replaceVariables exampleHost exampleExecutor ''build'' (Some ''x$env("BAZ")y'') \<noteq> Inr ''xy''\<close>
  by code_simp

subsection \<open>Positional arguments\<close>

lemma digit_small:
  "1 \<le> k \<Longrightarrow> k \<le> 9 \<Longrightarrow>
     showNat k = [digitChar k] \<and> indexOfDigit (digitChar k) = k \<and> digitChar k \<noteq> CHR ''?''"
proof -
  assume "1 \<le> k" "k \<le> 9"
  then consider "k = 1" | "k = 2" | "k = 3" | "k = 4" | "k = 5" | "k = 6" | "k = 7" | "k = 8" | "k = 9"
    by linarith
  then show ?thesis
    by cases (simp_all add: showNat.simps digitChar_def indexOfDigit_def)
qed

lemma index_digit:
  "1 \<le> indexOfDigit d \<Longrightarrow> d = digitChar (indexOfDigit d) \<and> indexOfDigit d \<le> 9 \<and> d \<noteq> CHR ''?''"
  by (auto simp: indexOfDigit_def digitChar_def split: if_splits)

lemma substUpTo_Cons_other:
  "c \<noteq> CHR ''?'' \<Longrightarrow> substUpTo j targs (c # r) = c # substUpTo j targs r"
  by (cases r) simp_all

lemma substUpTo_zero: "substUpTo 0 targs s = s"
  by (induction "0::nat" targs s rule: substUpTo.induct) auto

lemma noDoubleQuestion_tail: "noDoubleQuestion (c # r) \<Longrightarrow> noDoubleQuestion r"
  by (cases r) simp_all

lemma pass_small:
  assumes "\<forall>a \<in> set targs. CHR ''?'' \<notin> set a" and "CHR ''$'' \<notin> set (targs ! j)"
    and "j < length targs" and "j < 9" and "noDoubleQuestion s"
  shows "replaceGlobal (CHR ''?'') [digitChar (Suc j)] (targs ! j) pre (substUpTo j targs s)
           = substUpTo (Suc j) targs s"
  using assms
proof (induction j targs s arbitrary: pre rule: substUpTo.induct)
  case (1 j targs c d r)
  let ?D = "digitChar (Suc j)"
  let ?R = "\<lambda>pre t. replaceGlobal (CHR ''?'') [?D] (targs ! j) pre t"
  from "1.prems" have nd: "\<not> (c = CHR ''?'' \<and> d = CHR ''?'')" and ndr: "noDoubleQuestion (d # r)"
    by simp_all
  have D: "indexOfDigit ?D = Suc j" "?D \<noteq> CHR ''?''"
    using digit_small [of "Suc j"] "1.prems"(4) by simp_all
  show ?case
  proof (cases "c = CHR ''?'' \<and> 1 \<le> indexOfDigit d \<and> indexOfDigit d \<le> j")
    case True
    with "1.prems"(3) have "indexOfDigit d - 1 < length targs" by linarith
    then have "targs ! (indexOfDigit d - 1) \<in> set targs" by (rule nth_mem)
    with "1.prems"(1) have q: "CHR ''?'' \<notin> set (targs ! (indexOfDigit d - 1))" by blast
    have "?R pre' (substUpTo j targs r) = substUpTo (Suc j) targs r" for pre'
      using "1.IH"(1) [OF True "1.prems"(1-4) noDoubleQuestion_tail [OF ndr]] .
    with True replaceGlobal_skip [OF q, of "[?D]" "targs ! j" pre "substUpTo j targs r"]
    show ?thesis by simp
  next
    case False
    have IH: "?R pre' (substUpTo j targs (d # r)) = substUpTo (Suc j) targs (d # r)" for pre'
      using "1.IH"(2) [OF False "1.prems"(1-4) ndr] .
    show ?thesis
    proof (cases "c = CHR ''?''")
      case cq: True
      with nd have dq: "d \<noteq> CHR ''?''" by simp
      note X = substUpTo_Cons_other [OF dq]
      have low: "substUpTo j targs (c # d # r) = CHR ''?'' # d # substUpTo j targs r"
        using False cq by (auto simp: X)
      show ?thesis
      proof (cases "indexOfDigit d = Suc j")
        case True
        with index_digit [of d] have dd: "d = ?D" by simp
        have up: "substUpTo (Suc j) targs (c # d # r) = targs ! j @ substUpTo (Suc j) targs r"
          using cq True by simp
        from IH [of "pre @ [CHR ''?'']"] dq
        have "?R (pre @ [CHR ''?'', d]) (substUpTo j targs r) = substUpTo (Suc j) targs r"
          by (simp add: X)
        then have "?R pre (CHR ''?'' # d # substUpTo j targs r) = targs ! j @ substUpTo (Suc j) targs r"
          using "1.prems"(2) by (simp add: dd [symmetric] getSubstitution_plain)
        then show ?thesis
          by (simp only: low up)
      next
        case ne: False
        with D have nD: "d \<noteq> ?D" by auto
        have up: "substUpTo (Suc j) targs (c # d # r) = CHR ''?'' # d # substUpTo (Suc j) targs r"
          using cq ne False by (auto simp: X le_Suc_eq)
        from IH [of "pre @ [CHR ''?'']"]
        have "?R (pre @ [CHR ''?'']) (d # substUpTo j targs r) = d # substUpTo (Suc j) targs r"
          by (simp only: X)
        then have "?R pre (CHR ''?'' # d # substUpTo j targs r) = CHR ''?'' # d # substUpTo (Suc j) targs r"
          using nD by simp
        then show ?thesis
          by (simp only: low up)
      qed
    next
      case False
      with IH [of "pre @ [c]"] show ?thesis by simp
    qed
  qed
qed simp_all


lemma replaceTaskArgs_passes:
  assumes "\<forall>a \<in> set targs. CHR ''?'' \<notin> set a \<and> CHR ''$'' \<notin> set a"
    and "noDoubleQuestion s" and "length targs \<le> 9"
  shows "j \<le> length targs \<Longrightarrow>
         foldl (\<lambda>result index.
                  replaceGlobal (CHR ''?'') (showNat (index + 1)) (targs ! index) [] result)
           s [0..<j] = substUpTo j targs s"
proof (induction j)
  case 0
  show ?case by (simp add: substUpTo_zero)
next
  case (Suc j)
  then have j: "j < length targs" "j < 9" using assms(3) by simp_all
  then have "targs ! j \<in> set targs" by simp
  with assms(1) have d: "CHR ''$'' \<notin> set (targs ! j)" by blast
  from j have sh: "showNat (Suc j) = [digitChar (Suc j)]"
    using digit_small [of "Suc j"] by simp
  from assms(1) have q: "\<forall>a \<in> set targs. CHR ''?'' \<notin> set a" by blast
  show ?case
    using Suc.IH j by (simp add: sh pass_small [OF q d j assms(2)])
qed

lemma substUpTo_no_dollar:
  "\<forall>a \<in> set targs. CHR ''$'' \<notin> set a \<Longrightarrow> j \<le> length targs \<Longrightarrow> CHR ''$'' \<notin> set s \<Longrightarrow>
   CHR ''$'' \<notin> set (substUpTo j targs s)"
proof (induction j targs s rule: substUpTo.induct)
  case (1 j targs c d r)
  show ?case
  proof (cases "c = CHR ''?'' \<and> 1 \<le> indexOfDigit d \<and> indexOfDigit d \<le> j")
    case True
    with "1.prems"(2) have "indexOfDigit d - 1 < length targs" by linarith
    then have "targs ! (indexOfDigit d - 1) \<in> set targs" by (rule nth_mem)
    with "1.prems"(1) have "CHR ''$'' \<notin> set (targs ! (indexOfDigit d - 1))" by blast
    moreover from "1.IH"(1) [OF True "1.prems"(1,2)] "1.prems"(3)
    have "CHR ''$'' \<notin> set (substUpTo j targs r)" by simp
    ultimately show ?thesis using True by simp
  next
    case False
    from "1.IH"(2) [OF False "1.prems"(1,2)] "1.prems"(3)
    have "CHR ''$'' \<notin> set (substUpTo j targs (d # r))" by simp
    with False "1.prems"(3) show ?thesis by auto
  qed
qed simp_all

lemma replaceScriptVariables_no_dollar:
  "CHR ''$'' \<notin> set s \<Longrightarrow> replaceScriptVariables vs s = s"
  unfolding replaceScriptVariables_def by (rule foldl_unchanged) (simp add: replaceGlobal_absent)

lemma replaceGlobalVariables_no_dollar:
  "CHR ''$'' \<notin> set s \<Longrightarrow> replaceGlobalVariables gs s = s"
  unfolding replaceGlobalVariables_def by (rule foldl_unchanged) (auto simp: replaceGlobal_absent)

lemma resolve_positional:
  assumes "lookupTaskArgs ex taskName = Inr targs"
    and "length targs \<le> 9"
    and "namedArgs ex = []"
    and "\<forall>a \<in> set targs. CHR ''?'' \<notin> set a \<and> CHR ''$'' \<notin> set a"
    and "noDoubleQuestion s" and "CHR ''$'' \<notin> set s"
  shows "replaceVariables h ex taskName (Some s) = Inr (substPositional targs s)"
proof -
  have 1: "replaceTaskArgs targs s = substPositional targs s"
    unfolding replaceTaskArgs_def substPositional_def
    by (rule replaceTaskArgs_passes [OF assms(4,5,2)]) simp
  have 2: "CHR ''$'' \<notin> set (substPositional targs s)"
    unfolding substPositional_def using assms(4,6) by (intro substUpTo_no_dollar) auto
  show ?thesis
    by (simp add: replaceVariables_def assms(1,3) substituteNames_def 1 replaceNamedArgs_def
        replaceScriptVariables_no_dollar [OF 2] replaceGlobalVariables_no_dollar [OF 2]
        replaceEnvVariables_no_dollar [OF 2])
qed

text \<open>
  Claim C5, as amended. With at most nine arguments, none of which contains a question
  mark or a dollar sign, and no named arguments, resolution replaces every occurrence of
  the two characters \<open>?k\<close>, for a digit \<open>k\<close> from \<open>1\<close> to the number of arguments, by
  the argument \<open>k\<close>, whatever follows the digit, and leaves every other character as it
  is: \<open>?k\<close> resolves to the argument \<open>k\<close>, and to itself for a digit beyond the number
  of arguments. (The text has no dollar sign and no two question marks in a row.)
\<close>

theorem positional_substitution:
  assumes "wordNames ex"
    and "lookupTaskArgs ex taskName = Inr targs"
    and "length targs \<le> 9"
    and "namedArgs ex = []"
    and "\<forall>a \<in> set targs. CHR ''?'' \<notin> set a \<and> CHR ''$'' \<notin> set a"
  shows "(\<forall>s. noDoubleQuestion s \<and> CHR ''$'' \<notin> set s \<longrightarrow>
            replaceVariables h ex taskName (Some s) = Inr (substPositional targs s))
       \<and> (\<forall>k. 1 \<le> k \<and> k \<le> length targs \<longrightarrow>
            replaceVariables h ex taskName (Some [CHR ''?'', digitChar k]) = Inr (targs ! (k - 1)))
       \<and> (\<forall>k. length targs < k \<and> k \<le> 9 \<longrightarrow>
            replaceVariables h ex taskName (Some [CHR ''?'', digitChar k]) = Inr [CHR ''?'', digitChar k])"
proof (intro conjI allI impI)
  fix s
  assume "noDoubleQuestion s \<and> CHR ''$'' \<notin> set s"
  then show "replaceVariables h ex taskName (Some s) = Inr (substPositional targs s)"
    using resolve_positional [OF assms(2-5)] by blast
next
  fix k
  assume k: "1 \<le> k \<and> k \<le> length targs"
  with assms(3) have d: "indexOfDigit (digitChar k) = k" "digitChar k \<noteq> CHR ''?''" "digitChar k \<noteq> CHR ''$''"
    using digit_small [of k] index_digit [of "digitChar k"] by (auto simp: indexOfDigit_def split: if_splits)
  then have "replaceVariables h ex taskName (Some [CHR ''?'', digitChar k])
               = Inr (substPositional targs [CHR ''?'', digitChar k])"
    by (intro resolve_positional [OF assms(2-5)]) simp_all
  with k d show "replaceVariables h ex taskName (Some [CHR ''?'', digitChar k]) = Inr (targs ! (k - 1))"
    by (simp add: substPositional_def)
next
  fix k
  assume k: "length targs < k \<and> k \<le> 9"
  then have d: "indexOfDigit (digitChar k) = k" "digitChar k \<noteq> CHR ''?''" "digitChar k \<noteq> CHR ''$''"
    using digit_small [of k] index_digit [of "digitChar k"] by (auto simp: indexOfDigit_def split: if_splits)
  then have "replaceVariables h ex taskName (Some [CHR ''?'', digitChar k])
               = Inr (substPositional targs [CHR ''?'', digitChar k])"
    by (intro resolve_positional [OF assms(2-5)]) simp_all
  with k d show "replaceVariables h ex taskName (Some [CHR ''?'', digitChar k]) = Inr [CHR ''?'', digitChar k]"
    by (simp add: substPositional_def)
qed

theorem positional_substitution_witness:
  "replaceVariables exampleHost (setTaskArgs ''greet'' [''a'', ''b''] exampleExecutor) ''greet''
      (Some ''?1-?2 ?3 ?10'') = Inr ''a-b ?3 a0''
   \<and> replaceVariables exampleHost (setTaskArgs ''greet'' [''a'', ''b''] exampleExecutor) ''greet''
      (Some ''?2'') = Inr ''b''
   \<and> replaceVariables exampleHost (setTaskArgs ''greet'' [''a'', ''b''] exampleExecutor) ''greet''
      (Some ''?3'') = Inr ''?3''"
proof -
  let ?ex = "setTaskArgs ''greet'' [''a'', ''b''] exampleExecutor"
  have w: "wordNames ?ex"
    by (simp add: wordNames_def setTaskArgs_def exampleExecutor_def newExecutor_def exampleScript_def isWordChar_def)
  have l: "lookupTaskArgs ?ex ''greet'' = Inr [''a'', ''b'']"
    by (simp add: lookupTaskArgs_def setTaskArgs_def)
  have n: "namedArgs ?ex = []"
    by (simp add: setTaskArgs_def exampleExecutor_def newExecutor_def)
  have a: "\<forall>a \<in> set [''a'', ''b'']. CHR ''?'' \<notin> set a \<and> CHR ''$'' \<notin> set a" "length [''a'', ''b''] \<le> 9"
    by simp_all
  note t = positional_substitution [OF w l a(2) n a(1), of exampleHost]
  have s: "substPositional [''a'', ''b''] ''?1-?2 ?3 ?10'' = ''a-b ?3 a0''"
    by code_simp
  have d: "digitChar 2 = CHR ''2''" "digitChar 3 = CHR ''3''"
    by (simp_all add: digitChar_def)
  from t [THEN conjunct1, rule_format, of "''?1-?2 ?3 ?10''"] s
  have "replaceVariables exampleHost ?ex ''greet'' (Some ''?1-?2 ?3 ?10'') = Inr ''a-b ?3 a0''"
    by simp
  moreover from t [THEN conjunct2, THEN conjunct1, rule_format, of 2] d
  have "replaceVariables exampleHost ?ex ''greet'' (Some ''?2'') = Inr ''b''"
    by simp
  moreover from t [THEN conjunct2, THEN conjunct2, rule_format, of 3] d
  have "replaceVariables exampleHost ?ex ''greet'' (Some ''?3'') = Inr ''?3''"
    by simp
  ultimately show ?thesis by simp
qed

text \<open>
  Claim C5 as stated fails: with the one argument \<open>a\<close>, the reference \<open>?10\<close> to an
  index beyond the number of arguments is not left as it is; it resolves to \<open>a0\<close>.
\<close>

theorem positional_beyond_count_counterexample:
  "length [''a''] < 10
   \<and> replaceVariables exampleHost (setTaskArgs ''greet'' [''a''] exampleExecutor) ''greet''
        (Some ''?10'') = Inr ''a0''
   \<and> replaceVariables exampleHost (setTaskArgs ''greet'' [''a''] exampleExecutor) ''greet''
        (Some ''?10'') \<noteq> Inr ''?10''"
  by code_simp

section \<open>Properties of the parser\<close>

lemma run_then_other:
  "list_all P xs \<Longrightarrow> takeWhile P ys = [] \<Longrightarrow>
   takeWhile P (xs @ ys) = xs \<and> dropWhile P (xs @ ys) = ys"
  by (induction xs) (auto simp: takeWhile_eq_Nil_iff dropWhile_eq_self_iff)

lemma space_not_word: "isSpace c \<Longrightarrow> \<not> isWordChar c"
  by (auto simp: isSpace_def isWordChar_def)

lemma special_chars [simp]:
  "\<not> isSpace (CHR ''v'')" "\<not> isSpace (CHR ''='')" "\<not> isSpace (CHR 0x22)" "isSpace (CHR '' '')"
  "\<not> isWordChar (CHR ''='')"
  by (simp_all add: isSpace_def isWordChar_def)

lemma trim_core:
  assumes "list_all isSpace lead" and "list_all isSpace trail"
    and "core \<noteq> []" and "\<not> isSpace (hd core)" and "\<not> isSpace (last core)"
  shows "trim (lead @ core @ trail) = core"
proof -
  from assms(3,4) have "takeWhile isSpace (core @ trail) = []"
    by (cases core) simp_all
  with assms(1) have 1: "dropWhile isSpace (lead @ core @ trail) = core @ trail"
    using run_then_other [of isSpace lead "core @ trail"] by simp
  from assms(3,5) have "takeWhile isSpace (rev core) = []"
    by (cases core rule: rev_cases) simp_all
  moreover from assms(2) have "list_all isSpace (rev trail)" by (simp add: list_all_iff)
  ultimately have "dropWhile isSpace (rev trail @ rev core) = rev core"
    using run_then_other [of isSpace "rev trail" "rev core"] by simp
  with 1 show ?thesis by (simp add: trim_def)
qed

lemma matchVarAt_var_line:
  assumes "list_all isSpace ws1" and "list_all isSpace ws2" and "list_all isSpace ws3"
    and "NAME \<noteq> []" and "list_all isWordChar NAME" and "CHR 0x22 \<notin> set VALUE"
  shows "matchVarAt (''var '' @ ws1 @ NAME @ ws2 @ ''='' @ ws3 @ [CHR 0x22] @ VALUE @ [CHR 0x22])
           = Some (NAME, VALUE)"
proof -
  let ?r3 = "[CHR 0x22] @ VALUE @ [CHR 0x22]"
  let ?r2 = "''='' @ ws3 @ ?r3"
  let ?r1 = "NAME @ ws2 @ ?r2"
  from assms(4,5) have "\<not> isSpace (hd NAME)"
    using space_not_word by (cases NAME) auto
  with assms(4) have "takeWhile isSpace ?r1 = []" by (cases NAME) simp_all
  with assms(1) have s1: "takeWhile isSpace ('' '' @ ws1 @ ?r1) = '' '' @ ws1"
    "dropWhile isSpace ('' '' @ ws1 @ ?r1) = ?r1"
    using run_then_other [of isSpace "'' '' @ ws1" ?r1] by simp_all
  from assms(2) have "takeWhile isWordChar (ws2 @ ?r2) = []"
    using space_not_word by (cases ws2) auto
  with assms(5) have s2: "takeWhile isWordChar ?r1 = NAME" "dropWhile isWordChar ?r1 = ws2 @ ?r2"
    using run_then_other [of isWordChar NAME "ws2 @ ?r2"] by simp_all
  from assms(2) have s3: "dropWhile isSpace (ws2 @ ?r2) = ?r2"
    using run_then_other [of isSpace ws2 ?r2] by simp
  from assms(3) have s4: "dropWhile isSpace (ws3 @ ?r3) = ?r3"
    using run_then_other [of isSpace ws3 ?r3] by simp
  from assms(6) have "list_all (\<lambda>c. c \<noteq> CHR 0x22) VALUE" by (auto simp: list_all_iff)
  then have s5: "takeWhile (\<lambda>c. c \<noteq> CHR 0x22) (VALUE @ [CHR 0x22]) = VALUE"
    "dropWhile (\<lambda>c. c \<noteq> CHR 0x22) (VALUE @ [CHR 0x22]) = [CHR 0x22]"
    using run_then_other [of "\<lambda>c. c \<noteq> CHR 0x22" VALUE "[CHR 0x22]"] by simp_all
  have d: "drop 3 (''var '' @ ws1 @ ?r1) = '' '' @ ws1 @ ?r1" by simp
  show ?thesis
    unfolding matchVarAt_def d s1 Let_def s2 s3
    using assms(4) s4 s5 by (simp add: startsWith_def)
qed


lemma parseLine_taskOpen: "taskOpen st \<Longrightarrow> taskOpen (parseLine st l)"
  by (auto simp: taskOpen_def parseLine_def Let_def pushCommand_def pushVariable_def openTask_def
      split: option.splits)

lemma parseLines_taskOpen: "taskOpen st \<Longrightarrow> taskOpen (foldl parseLine st ls)"
  by (induction ls arbitrary: st) (simp_all add: parseLine_taskOpen)

lemma parseLine_var_line:
  assumes "list_all isSpace lead" and "list_all isSpace trail"
    and "list_all isSpace ws1" and "list_all isSpace ws2" and "list_all isSpace ws3"
    and "NAME \<noteq> []" and "list_all isWordChar NAME" and "CHR 0x22 \<notin> set VALUE"
  shows "parseLine st (lead @ ''var '' @ ws1 @ NAME @ ws2 @ ''='' @ ws3 @ [CHR 0x22] @ VALUE @ [CHR 0x22] @ trail)
           = (case currentTask st of
                Some i \<Rightarrow> pushCommand i \<lparr>cmd_type = ''var'', cmd_args = [NAME, VALUE]\<rparr> st
              | None \<Rightarrow> pushVariable \<lparr>var_name = NAME, var_value = VALUE\<rparr> st)"
proof -
  let ?core = "''var '' @ ws1 @ NAME @ ws2 @ ''='' @ ws3 @ [CHR 0x22] @ VALUE @ [CHR 0x22]"
  have t: "trim (lead @ ?core @ trail) = ?core"
    by (rule trim_core [OF assms(1,2)]) simp_all
  have m: "searchRe matchVarAt ?core = Some (NAME, VALUE)"
    using matchVarAt_var_line [OF assms(3-8)] by simp
  have c: "?core \<noteq> []" "\<not> startsWith ''#'' ?core" "startsWith ''var '' ?core"
    by (simp_all add: startsWith_def)
  from t have "parseLine st (lead @ ?core @ trail) =
      (case currentTask st of
         Some i \<Rightarrow> pushCommand i \<lparr>cmd_type = ''var'', cmd_args = [NAME, VALUE]\<rparr> st
       | None \<Rightarrow> pushVariable \<lparr>var_name = NAME, var_value = VALUE\<rparr> st)"
    unfolding parseLine_def Let_def by (simp only: c m if_True if_False simp_thms option.case prod.case)
  then show ?thesis by simp
qed

text \<open>
  Claim C6. Take a line of the form \<open>var NAME = "VALUE"\<close>, with any white space around
  it, after \<open>var\<close> and on both sides of the equals sign, a name of word characters and a
  value without a double quote. In any state the parser reaches, the line is handled by
  position: when a task is open, the command \<open>var\<close> with the arguments \<open>NAME\<close> and
  \<open>VALUE\<close> is appended to the commands of that task, and nothing else changes; when no
  task is open, the variable is appended to the variables of the script.
\<close>

theorem var_line_by_position:
  assumes "list_all isSpace lead" and "list_all isSpace trail"
    and "list_all isSpace ws1" and "list_all isSpace ws2" and "list_all isSpace ws3"
    and "NAME \<noteq> []" and "list_all isWordChar NAME" and "CHR 0x22 \<notin> set VALUE"
    and "rawLine = lead @ ''var '' @ ws1 @ NAME @ ws2 @ ''='' @ ws3 @ [CHR 0x22] @ VALUE @ [CHR 0x22] @ trail"
    and "st = foldl parseLine initialParserState ls"
  shows "(case currentTask st of
            None \<Rightarrow>
              parseLine st rawLine =
                st\<lparr>ps_script := (ps_script st)
                     \<lparr>variables := variables (ps_script st) @ [\<lparr>var_name = NAME, var_value = VALUE\<rparr>]\<rparr>\<rparr>
          | Some i \<Rightarrow>
              i < length (tasks (ps_script st))
              \<and> parseLine st rawLine =
                st\<lparr>ps_script := (ps_script st)
                     \<lparr>tasks := (tasks (ps_script st))
                        [i := (tasks (ps_script st) ! i)
                           \<lparr>task_commands := task_commands (tasks (ps_script st) ! i)
                                @ [\<lparr>cmd_type = ''var'', cmd_args = [NAME, VALUE]\<rparr>]\<rparr>]\<rparr>\<rparr>)"
proof -
  have "taskOpen initialParserState"
    by (simp add: taskOpen_def initialParserState_def)
  then have "taskOpen st"
    unfolding assms(10) by (rule parseLines_taskOpen)
  then show ?thesis
    unfolding assms(9) parseLine_var_line [OF assms(1-8)]
    by (auto simp: taskOpen_def pushCommand_def pushVariable_def split: option.splits)
qed

theorem var_line_by_position_witness:
  \<open>parseLine (foldl parseLine initialParserState []) ''var GREETING = "hello"'' =
     \<lparr>ps_script = \<lparr>variables = [\<lparr>var_name = ''GREETING'', var_value = ''hello''\<rparr>], tasks = []\<rparr>,
      currentTask = None\<rparr>
   \<and> parseLine (foldl parseLine initialParserState [''task greet:'']) ''    var X = "y"  '' =
     \<lparr>ps_script = \<lparr>variables = [],
                    tasks = [\<lparr>task_name = ''greet'',
                              task_commands = [\<lparr>cmd_type = ''var'', cmd_args = [''X'', ''y'']\<rparr>]\<rparr>]\<rparr>,
      currentTask = Some 0\<rparr>\<close>
proof -
  have s0: "foldl parseLine initialParserState [] = initialParserState" by simp
  have s1: "foldl parseLine initialParserState [''task greet:''] =
              \<lparr>ps_script = \<lparr>variables = [], tasks = [\<lparr>task_name = ''greet'', task_commands = []\<rparr>]\<rparr>,
               currentTask = Some 0\<rparr>"
    by code_simp
  have sp: "list_all isSpace []" "list_all isSpace '' ''" "list_all isSpace ''    ''" "list_all isSpace ''  ''"
    by (simp_all add: isSpace_def)
  have w: "list_all isWordChar ''GREETING''" "list_all isWordChar ''X''"
    by (simp_all add: isWordChar_def)
  have 1: \<open>''var GREETING = "hello"'' =
             [] @ ''var '' @ [] @ ''GREETING'' @ '' '' @ ''='' @ '' '' @ [CHR 0x22] @ ''hello'' @ [CHR 0x22] @ []\<close>
    by simp
  have 2: \<open>''    var X = "y"  '' =
             ''    '' @ ''var '' @ [] @ ''X'' @ '' '' @ ''='' @ '' '' @ [CHR 0x22] @ ''y'' @ [CHR 0x22] @ ''  ''\<close>
    by simp
  from var_line_by_position [OF sp(1) sp(1) sp(1) sp(2) sp(2) _ w(1) _ 1 refl, of "[]"]
  have a: \<open>parseLine initialParserState ''var GREETING = "hello"'' =
     \<lparr>ps_script = \<lparr>variables = [\<lparr>var_name = ''GREETING'', var_value = ''hello''\<rparr>], tasks = []\<rparr>,
      currentTask = None\<rparr>\<close>
    by (simp add: initialParserState_def)
  from var_line_by_position [OF sp(3) sp(4) sp(1) sp(2) sp(2) _ w(2) _ 2 refl, of "[''task greet:'']"]
  have b: \<open>parseLine (foldl parseLine initialParserState [''task greet:'']) ''    var X = "y"  '' =
     \<lparr>ps_script = \<lparr>variables = [],
                    tasks = [\<lparr>task_name = ''greet'',
                              task_commands = [\<lparr>cmd_type = ''var'', cmd_args = [''X'', ''y'']\<rparr>]\<rparr>]\<rparr>,
      currentTask = Some 0\<rparr>\<close>
    unfolding s1 by simp
  from a b show ?thesis by (simp only: s0 simp_thms)
qed

end
